theory Spec2Isabelle
  imports Complex_Main
begin

section \<open>JavaScript values shared by the three scripts\<close>

text \<open>
  A JavaScript string is a sequence of UTF-16 code units; a code unit is a natural number.
  \<open>js\<close> writes an ASCII literal as such a sequence. A JavaScript number that holds a
  coordinate or a time is the real number it denotes; counters and indices are integers.
\<close>

type_synonym jsstring = "nat list"

text \<open>
  The exceptions the scripts can meet: a \<open>TypeError\<close> (a property read on \<open>null\<close> or
  \<open>undefined\<close>, a call of something that is no function), the rejection of a \<open>fetch\<close> that
  failed at the network level (\<open>NetworkError\<close>; browsers raise it as a \<open>TypeError\<close> too, the
  model keeps it apart), and the \<open>SyntaxError\<close> of \<open>resp.json()\<close> on a body that is not JSON.
\<close>

datatype js_error = TypeError | NetworkError | SyntaxError

definition js :: "string \<Rightarrow> jsstring" where
  "js s = map of_char s"

text \<open>\<open>String.prototype.trim\<close> removes WhiteSpace and LineTerminator code units at both ends.\<close>

definition is_js_space :: "nat \<Rightarrow> bool" where
  "is_js_space c \<longleftrightarrow>
     c = 9 \<or> c = 10 \<or> c = 11 \<or> c = 12 \<or> c = 13 \<or> c = 32 \<or> c = 160 \<or> c = 5760 \<or>
     (8192 \<le> c \<and> c \<le> 8202) \<or> c = 8232 \<or> c = 8233 \<or> c = 8239 \<or> c = 8287 \<or>
     c = 12288 \<or> c = 65279"

definition trim :: "jsstring \<Rightarrow> jsstring" where
  "trim s = rev (dropWhile is_js_space (rev (dropWhile is_js_space s)))"

definition startsWith :: "jsstring \<Rightarrow> jsstring \<Rightarrow> bool" where
  "startsWith s p \<longleftrightarrow> take (length p) s = p"

definition endsWith :: "jsstring \<Rightarrow> jsstring \<Rightarrow> bool" where
  "endsWith s p \<longleftrightarrow> length p \<le> length s \<and> drop (length s - length p) s = p"

subsection \<open>Double-precision arithmetic\<close>

text \<open>
  JavaScript numbers are IEEE 754 binary64 values, and every arithmetic operation returns
  the double nearest to its exact result, ties to even. \<open>to_double\<close> is that rounding, on
  the reals. \<open>binade x\<close> is the exponent \<open>e\<close> with \<open>2^e \<le> x < 2^(e+1)\<close>, kept within the
  exponent range of the format (below \<open>2^-1022\<close> the doubles are spaced as in the lowest
  binade); the doubles of a binade are the multiples of \<open>2^(e-52)\<close>. A result that overflows
  is \<open>2^1024\<close> (or its negative), which stands for \<open>Infinity\<close>: it compares with every double
  as \<open>Infinity\<close> does. The operands of the scripts are finite, so the differences, products
  and sums below are never NaN; a division by zero is \<open>js_div\<close> further down.
\<close>

function exp_up :: "int \<Rightarrow> real \<Rightarrow> int" where
  "exp_up e x = (if e < 1023 \<and> 2 powi (e + 1) \<le> x then exp_up (e + 1) x else e)"
  by pat_completeness auto
termination
  by (relation "measure (\<lambda>(e, x). nat (1023 - e))") auto

function exp_down :: "int \<Rightarrow> real \<Rightarrow> int" where
  "exp_down e x = (if - 1022 < e \<and> x < 2 powi e then exp_down (e - 1) x else e)"
  by pat_completeness auto
termination
  by (relation "measure (\<lambda>(e, x). nat (e + 1022))") auto

definition binade :: "real \<Rightarrow> int" where
  "binade x = (if 1 \<le> x then exp_up 0 x else exp_down 0 x)"

text \<open>Rounding to the nearest integer, ties to the even one.\<close>

definition rne :: "real \<Rightarrow> int" where
  "rne q =
     (if q - of_int \<lfloor>q\<rfloor> < 1 / 2 then \<lfloor>q\<rfloor>
      else if 1 / 2 < q - of_int \<lfloor>q\<rfloor> then \<lfloor>q\<rfloor> + 1
      else if even \<lfloor>q\<rfloor> then \<lfloor>q\<rfloor>
      else \<lfloor>q\<rfloor> + 1)"

text \<open>The nearest multiple of the spacing of the binade of a positive \<open>x\<close>.\<close>

definition pre_double :: "real \<Rightarrow> real" where
  "pre_double x = of_int (rne (x / 2 powi (binade x - 52))) * 2 powi (binade x - 52)"

definition to_double :: "real \<Rightarrow> real" where
  "to_double x = (if x = 0 then 0 else sgn x * min (pre_double \<bar>x\<bar>) (2 powi 1024))"

section \<open>stream.js: counting the segments of a playlist\<close>

text \<open>
  \<open>text.split(/\r?\n/)\<close>: a line feed (10) ends a line, and a carriage return (13) right
  before it belongs to the separator. The first argument holds the current line, reversed.
\<close>

fun split_acc :: "jsstring \<Rightarrow> jsstring \<Rightarrow> jsstring list" where
  "split_acc cur [] = [rev cur]"
| "split_acc cur [c] = (if c = 10 then [rev cur, []] else [rev (c # cur)])"
| "split_acc cur (c # d # cs) =
     (if c = 10 then rev cur # split_acc [] (d # cs)
      else if c = 13 \<and> d = 10 then rev cur # split_acc [] cs
      else split_acc (c # cur) (d # cs))"

definition split_lines :: "jsstring \<Rightarrow> jsstring list" where
  "split_lines text = split_acc [] text"

text \<open>The \<open>for (const ln of lines)\<close> loop of \<open>countSegmentsInM3U8\<close>, with its counter \<open>n\<close>.\<close>

fun count_loop :: "jsstring list \<Rightarrow> nat \<Rightarrow> nat" where
  "count_loop [] n = n"
| "count_loop (line # lns) n =
     (if startsWith line (js ''#'') then count_loop lns n
      else if endsWith line (js ''.ts'') \<or> endsWith line (js ''.m4s'') then count_loop lns (n + 1)
      else count_loop lns n)"

definition countSegmentsInM3U8 :: "jsstring \<Rightarrow> nat" where
  "countSegmentsInM3U8 text =
     count_loop (filter (\<lambda>s. s \<noteq> []) (map trim (split_lines text))) 0"

text \<open>
  The count as the specification words it: the lines that are non-empty, do not start with
  \<open>#\<close> and end with one of the two segment suffixes.
\<close>

definition segment_line :: "jsstring \<Rightarrow> bool" where
  "segment_line l \<longleftrightarrow>
     l \<noteq> [] \<and> \<not> startsWith l (js ''#'') \<and> (endsWith l (js ''.ts'') \<or> endsWith l (js ''.m4s''))"

definition stated_segment_count :: "jsstring \<Rightarrow> nat" where
  "stated_segment_count text = length (filter segment_line (split_lines text))"

definition example_playlist :: jsstring where
  "example_playlist =
     js ''#EXTM3U'' @ [10] @ js ''seg1.ts'' @ [10] @ js ''seg2.ts'' @ [10] @ js ''#EXT-X-ENDLIST''"

definition padded_line :: jsstring where
  "padded_line = js ''seg1.ts ''"

definition padded_playlist :: jsstring where
  "padded_playlist = js ''  seg1.ts '' @ [13, 10] @ js '' #x.ts''"

section \<open>stream.js: the stream readiness controller\<close>

text \<open>
  The controller's variables (\<open>startToken\<close>, \<open>logLines\<close>, \<open>safeLastStatus\<close>) and what it
  shows and drives: the badge (\<open>None\<close> when the page has no \<open>hlsBadge\<close> element), the
  status panel, and the source the video element plays. Whether the browser plays HLS
  natively and whether hls.js is supported are properties of the page. Log lines are kept
  as what they report, without their time stamp; the events of a running hls.js player are
  left to the player. \<open>setStatus\<close> is always called together with the assignment to
  \<open>safeLastStatus\<close>, so one field stands for both. A response body is no JSON, the JSON
  \<open>null\<close>, or a value whose \<open>hls_url\<close> and \<open>detail\<close> the controller reads.
\<close>

datatype badge_kind = Badge_idle | Badge_wait | Badge_ready | Badge_error

datatype badge_extra =
    No_extra
  | Progress nat nat
  | Segs nat
  | Extra_timeout
  | Extra_no_url
  | Extra_reload_failed

datatype stop_reason = Reason_pipeline | Reason_reload | Reason_user

record status_obj =
  hls_url :: "jsstring option"
  detail :: "jsstring option"

datatype json_body = Not_json | Json_null | Json_obj status_obj

datatype log_line =
    Log_start_failed "jsstring option"
  | Log_pipeline_started
  | Log_wait_cancelled
  | Log_not_ready
  | Log_player_stopped stop_reason
  | Log_loading "jsstring option" int
  | Log_native_hls
  | Log_hlsjs
  | Log_unsupported
  | Log_reload_no_url
  | Log_reload_waiting
  | Log_reload_cancelled
  | Log_reload_not_ready
  | Log_reload_error js_error

datatype player_source = No_source | Native_source "jsstring option" int | Hlsjs_source "jsstring option" int

record stream_state =
  startToken :: int
  logLines :: "log_line list"
  safeLastStatus :: "json_body option"
  badge :: "(badge_kind \<times> badge_extra) option"
  player :: player_source
  native_hls :: bool
  hlsjs_supported :: bool

definition MAX_LOG_LINES :: nat where
  "MAX_LOG_LINES = 300"

definition setStatus :: "json_body \<Rightarrow> stream_state \<Rightarrow> stream_state" where
  "setStatus d s = s\<lparr>safeLastStatus := Some d\<rparr>"

definition appendLog :: "log_line \<Rightarrow> stream_state \<Rightarrow> stream_state" where
  "appendLog l s =
     s\<lparr>logLines := drop (length (logLines s @ [l]) - MAX_LOG_LINES) (logLines s @ [l])\<rparr>"

definition setHlsBadge :: "badge_kind \<Rightarrow> badge_extra \<Rightarrow> stream_state \<Rightarrow> stream_state" where
  "setHlsBadge k x s = (case badge s of None \<Rightarrow> s | Some b \<Rightarrow> s\<lparr>badge := Some (k, x)\<rparr>)"

definition stopPlayer :: "stop_reason \<Rightarrow> stream_state \<Rightarrow> stream_state" where
  "stopPlayer reason s =
     appendLog (Log_player_stopped reason) ((setHlsBadge Badge_idle No_extra s)\<lparr>player := No_source\<rparr>)"

text \<open>\<open>loadPlayer\<close>; the cache buster appended to the address is the clock value \<open>now\<close>.\<close>

definition loadPlayer :: "jsstring option \<Rightarrow> int \<Rightarrow> stream_state \<Rightarrow> stream_state" where
  "loadPlayer hlsUrl now s =
     (let s1 = appendLog (Log_loading hlsUrl now) s in
      if native_hls s1 then appendLog Log_native_hls (s1\<lparr>player := Native_source hlsUrl now\<rparr>)
      else if hlsjs_supported s1 then appendLog Log_hlsjs (s1\<lparr>player := Hlsjs_source hlsUrl now\<rparr>)
      else appendLog Log_unsupported s1)"

text \<open>
  What a \<open>fetch\<close> delivers. A control request: a rejection, or a response with its \<open>ok\<close> flag
  and its body. The playlist request of \<open>fetchTextNoStore\<close>: a rejection, or a response with
  its \<open>ok\<close> flag and its text.
\<close>

datatype control_response = Control_net_failed | Control_http bool json_body

datatype playlist_response = Playlist_net_failed | Playlist_http bool jsstring

text \<open>
  An asynchronous function is suspended at an \<open>await\<close> and resumed later; in between, other
  handlers run. A task is a suspended call with the locals it still needs. The frame of
  \<open>waitForHlsReady\<close> holds its arguments and \<open>start\<close>; it is suspended in the playlist fetch
  or in the \<open>setTimeout\<close> pause.
\<close>

record wait_frame =
  w_hlsUrl :: "jsstring option"
  w_token :: int
  w_start :: int
  w_minSegments :: nat
  w_timeoutMs :: int
  w_pollMs :: int

datatype wait_pc = At_fetch | At_sleep

datatype caller = From_start | From_reload

datatype task =
    Start_request
  | Stop_request
  | Reload_request int
  | Waiting caller wait_frame wait_pc

text \<open>
  How a resumed call goes on: it is suspended again, it returns, or an exception leaves it
  (the promise of the handler is rejected and nothing catches it).
\<close>

datatype outcome = Suspended task | Returned | Escaped js_error

datatype wait_result = Wait_ok nat | Wait_cancelled | Wait_timeout

datatype wait_step = Wait_suspended wait_pc | Wait_returned wait_result | Wait_threw js_error

text \<open>
  \<open>waitForHlsReady\<close> from the \<open>while\<close> condition to the next \<open>await\<close>; \<open>now\<close> is the clock read
  by the condition. (\<open>Date.now()\<close> is taken to give one value for the whole of a run between
  two suspensions.)
\<close>

definition wait_loop :: "wait_frame \<Rightarrow> int \<Rightarrow> stream_state \<Rightarrow> stream_state \<times> wait_step" where
  "wait_loop fr now s =
     (if now - w_start fr < w_timeoutMs fr then
        (if w_token fr \<noteq> startToken s then (s, Wait_returned Wait_cancelled)
         else (s, Wait_suspended At_fetch))
      else (setHlsBadge Badge_error Extra_timeout s, Wait_returned Wait_timeout))"

text \<open>From the return of \<open>await fetchTextNoStore(url)\<close> to the pause.\<close>

definition wait_fetched ::
  "wait_frame \<Rightarrow> playlist_response \<Rightarrow> stream_state \<Rightarrow> stream_state \<times> wait_step" where
  "wait_fetched fr r s =
     (case r of
        Playlist_net_failed \<Rightarrow> (s, Wait_threw NetworkError)
      | Playlist_http ok text \<Rightarrow>
          if ok \<and> text \<noteq> [] then
            (let segs = countSegmentsInM3U8 text;
                 s1 = setHlsBadge Badge_wait (Progress segs (w_minSegments fr)) s
             in if w_minSegments fr \<le> segs
                then (setHlsBadge Badge_ready (Segs segs) s1, Wait_returned (Wait_ok segs))
                else (s1, Wait_suspended At_sleep))
          else (s, Wait_suspended At_sleep))"

text \<open>What the caller does with the result of the wait, or with an exception out of it.\<close>

definition after_wait ::
  "caller \<Rightarrow> wait_frame \<Rightarrow> int \<Rightarrow> stream_state \<times> wait_step \<Rightarrow> stream_state \<times> outcome" where
  "after_wait c fr now r =
     (case r of
        (s, Wait_suspended pc) \<Rightarrow> (s, Suspended (Waiting c fr pc))
      | (s, Wait_returned (Wait_ok segs)) \<Rightarrow> (loadPlayer (w_hlsUrl fr) now s, Returned)
      | (s, Wait_returned Wait_cancelled) \<Rightarrow>
          (appendLog (case c of From_start \<Rightarrow> Log_wait_cancelled
                       | From_reload \<Rightarrow> Log_reload_cancelled) s, Returned)
      | (s, Wait_returned Wait_timeout) \<Rightarrow>
          (appendLog (case c of From_start \<Rightarrow> Log_not_ready
                       | From_reload \<Rightarrow> Log_reload_not_ready) s, Returned)
      | (s, Wait_threw e) \<Rightarrow>
          (case c of
             From_start \<Rightarrow> (s, Escaped e)
           | From_reload \<Rightarrow>
               (setHlsBadge Badge_error Extra_reload_failed (appendLog (Log_reload_error e) s),
                Returned)))"

text \<open>The call \<open>waitForHlsReady(hlsUrl, token, {minSegments: 2, timeoutMs: 25000, pollMs: 500})\<close>.\<close>

definition waitForHlsReady ::
  "caller \<Rightarrow> jsstring option \<Rightarrow> int \<Rightarrow> int \<Rightarrow> stream_state \<Rightarrow> stream_state \<times> outcome" where
  "waitForHlsReady c hlsUrl token now s =
     (let fr = \<lparr>w_hlsUrl = hlsUrl, w_token = token, w_start = now, w_minSegments = 2,
                w_timeoutMs = 25000, w_pollMs = 500\<rparr>
      in after_wait c fr now (wait_loop fr now (setHlsBadge Badge_wait (Progress 0 2) s)))"

definition startPipeline :: "jsstring \<Rightarrow> stream_state \<Rightarrow> stream_state \<times> outcome" where
  "startPipeline input s = (if trim input = [] then (s, Returned) else (s, Suspended Start_request))"

definition start_resumed :: "control_response \<Rightarrow> int \<Rightarrow> stream_state \<Rightarrow> stream_state \<times> outcome" where
  "start_resumed r now s =
     (case r of
        Control_net_failed \<Rightarrow> (s, Escaped NetworkError)
      | Control_http ok body \<Rightarrow>
          (case body of
             Not_json \<Rightarrow> (s, Escaped SyntaxError)
           | Json_null \<Rightarrow>
               if ok
               then (appendLog Log_pipeline_started
                       ((setStatus Json_null s)\<lparr>startToken := startToken s + 1\<rparr>),
                     Escaped TypeError)
               else (setStatus Json_null s, Escaped TypeError)
           | Json_obj d \<Rightarrow>
               if ok
               then
                 (let s1 = (setStatus (Json_obj d) s)\<lparr>startToken := startToken s + 1\<rparr>
                  in waitForHlsReady From_start (hls_url d) (startToken s1) now
                       (appendLog Log_pipeline_started s1))
               else (appendLog (Log_start_failed (detail d)) (setStatus (Json_obj d) s), Returned)))"

definition stopPipeline :: "stream_state \<Rightarrow> stream_state \<times> outcome" where
  "stopPipeline s =
     (setHlsBadge Badge_idle No_extra (s\<lparr>startToken := startToken s + 1\<rparr>), Suspended Stop_request)"

definition stop_resumed :: "control_response \<Rightarrow> stream_state \<Rightarrow> stream_state \<times> outcome" where
  "stop_resumed r s =
     (case r of
        Control_net_failed \<Rightarrow> (s, Escaped NetworkError)
      | Control_http ok body \<Rightarrow>
          (case body of
             Not_json \<Rightarrow> (s, Escaped SyntaxError)
           | _ \<Rightarrow> (stopPlayer Reason_pipeline (setStatus body s), Returned)))"

definition reload_caught :: "js_error \<Rightarrow> stream_state \<Rightarrow> stream_state \<times> outcome" where
  "reload_caught e s =
     (setHlsBadge Badge_error Extra_reload_failed (appendLog (Log_reload_error e) s), Returned)"

definition reload_click :: "stream_state \<Rightarrow> stream_state \<times> outcome" where
  "reload_click s =
     (let s1 = s\<lparr>startToken := startToken s + 1\<rparr>
      in (stopPlayer Reason_reload s1, Suspended (Reload_request (startToken s1))))"

definition has_url :: "json_body \<Rightarrow> bool" where
  "has_url body =
     (case body of
        Json_obj d \<Rightarrow> (case hls_url d of None \<Rightarrow> False | Some u \<Rightarrow> u \<noteq> [])
      | _ \<Rightarrow> False)"

definition reload_resumed ::
  "int \<Rightarrow> control_response \<Rightarrow> int \<Rightarrow> stream_state \<Rightarrow> stream_state \<times> outcome" where
  "reload_resumed token r now s =
     (case r of
        Control_net_failed \<Rightarrow> reload_caught NetworkError s
      | Control_http ok body \<Rightarrow>
          (case body of
             Not_json \<Rightarrow> reload_caught SyntaxError s
           | Json_null \<Rightarrow>
               (setHlsBadge Badge_error Extra_no_url
                  (appendLog Log_reload_no_url (setStatus body s)), Returned)
           | Json_obj d \<Rightarrow>
               if has_url body
               then waitForHlsReady From_reload (hls_url d) token now
                      (appendLog Log_reload_waiting (setStatus body s))
               else (setHlsBadge Badge_error Extra_no_url
                       (appendLog Log_reload_no_url (setStatus body s)), Returned)))"

text \<open>
  \<open>pollStatus\<close>, once a second, from the return of its \<open>fetch\<close>: it swallows every exception.
\<close>

definition pollStatus :: "control_response \<Rightarrow> stream_state \<Rightarrow> stream_state" where
  "pollStatus r s =
     (case r of
        Control_net_failed \<Rightarrow> s
      | Control_http ok body \<Rightarrow> (case body of Not_json \<Rightarrow> s | _ \<Rightarrow> setStatus body s))"

text \<open>
  The pending work of the page: what the event loop delivers to a suspended task. A
  response or a timer resumes the task it belongs to; a payload of the wrong kind is not an
  event of that task (\<open>None\<close>).
\<close>

datatype payload = Control control_response | Playlist playlist_response | Timer

definition resume :: "task \<Rightarrow> payload \<Rightarrow> int \<Rightarrow> stream_state \<Rightarrow> (stream_state \<times> outcome) option" where
  "resume t p now s =
     (case (t, p) of
        (Start_request, Control r) \<Rightarrow> Some (start_resumed r now s)
      | (Stop_request, Control r) \<Rightarrow> Some (stop_resumed r s)
      | (Reload_request token, Control r) \<Rightarrow> Some (reload_resumed token r now s)
      | (Waiting c fr At_fetch, Playlist r) \<Rightarrow> Some (after_wait c fr now (wait_fetched fr r s))
      | (Waiting c fr At_sleep, Timer) \<Rightarrow> Some (after_wait c fr now (wait_loop fr now s))
      | _ \<Rightarrow> None)"

text \<open>
  The page: the controller's state, the suspended tasks, and the exceptions that left a
  handler uncaught.
\<close>

record page =
  ctl :: stream_state
  tasks :: "task list"
  uncaught :: "js_error list"

datatype stream_event =
    Click_start jsstring
  | Click_stop
  | Click_reload
  | Click_stop_player
  | Status_polled control_response
  | Deliver nat payload

definition settle :: "task list \<Rightarrow> js_error list \<Rightarrow> stream_state \<times> outcome \<Rightarrow> page" where
  "settle ts es r =
     (case r of
        (s, Suspended t) \<Rightarrow> \<lparr>ctl = s, tasks = ts @ [t], uncaught = es\<rparr>
      | (s, Returned) \<Rightarrow> \<lparr>ctl = s, tasks = ts, uncaught = es\<rparr>
      | (s, Escaped e) \<Rightarrow> \<lparr>ctl = s, tasks = ts, uncaught = es @ [e]\<rparr>)"

definition stream_step :: "stream_event \<Rightarrow> int \<Rightarrow> page \<Rightarrow> page option" where
  "stream_step ev now pg =
     (case ev of
        Click_start input \<Rightarrow> Some (settle (tasks pg) (uncaught pg) (startPipeline input (ctl pg)))
      | Click_stop \<Rightarrow> Some (settle (tasks pg) (uncaught pg) (stopPipeline (ctl pg)))
      | Click_reload \<Rightarrow> Some (settle (tasks pg) (uncaught pg) (reload_click (ctl pg)))
      | Click_stop_player \<Rightarrow> Some (pg\<lparr>ctl := stopPlayer Reason_user (ctl pg)\<rparr>)
      | Status_polled r \<Rightarrow> Some (pg\<lparr>ctl := pollStatus r (ctl pg)\<rparr>)
      | Deliver i p \<Rightarrow>
          if i < length (tasks pg)
          then map_option (settle (take i (tasks pg) @ drop (Suc i) (tasks pg)) (uncaught pg))
                 (resume (tasks pg ! i) p now (ctl pg))
          else None)"

fun stream_run :: "(stream_event \<times> int) list \<Rightarrow> page \<Rightarrow> page option" where
  "stream_run [] pg = Some pg"
| "stream_run ((ev, now) # evs) pg =
     (case stream_step ev now pg of None \<Rightarrow> None | Some pg' \<Rightarrow> stream_run evs pg')"

definition stream_init :: "bool \<Rightarrow> bool \<Rightarrow> page" where
  "stream_init native hlsjs =
     \<lparr>ctl = \<lparr>startToken = 0, logLines = [], safeLastStatus = None,
             badge = Some (Badge_idle, No_extra), player = No_source,
             native_hls = native, hlsjs_supported = hlsjs\<rparr>,
      tasks = [], uncaught = []\<rparr>"

subsection \<open>Example runs of the controller\<close>

definition rtsp_url :: jsstring where
  "rtsp_url = js ''rtsp://x''"

definition running_status :: status_obj where
  "running_status = \<lparr>hls_url = Some (js ''/hls/x.m3u8''), detail = None\<rparr>"

definition stopped_status :: status_obj where
  "stopped_status = \<lparr>hls_url = None, detail = None\<rparr>"

definition start_net_failure :: "(stream_event \<times> int) list" where
  "start_net_failure = [(Click_start rtsp_url, 0), (Deliver 0 (Control Control_net_failed), 10)]"

definition stop_net_failure :: "(stream_event \<times> int) list" where
  "stop_net_failure = [(Click_stop, 0), (Deliver 0 (Control Control_net_failed), 10)]"

definition reload_net_failure :: "(stream_event \<times> int) list" where
  "reload_net_failure = [(Click_reload, 0), (Deliver 0 (Control Control_net_failed), 10)]"

definition stop_during_wait :: "(stream_event \<times> int) list" where
  "stop_during_wait =
     [(Click_start rtsp_url, 0),
      (Deliver 0 (Control (Control_http True (Json_obj running_status))), 100),
      (Click_stop, 200),
      (Deliver 1 (Control (Control_http True (Json_obj stopped_status))), 300),
      (Deliver 0 (Playlist (Playlist_http True example_playlist)), 400)]"

definition example_frame :: wait_frame where
  "example_frame =
     \<lparr>w_hlsUrl = Some (js ''/hls/x.m3u8''), w_token = 1, w_start = 100, w_minSegments = 2,
      w_timeoutMs = 25000, w_pollMs = 500\<rparr>"

definition waiting_state :: stream_state where
  "waiting_state =
     \<lparr>startToken = 1, logLines = [Log_pipeline_started],
      safeLastStatus = Some (Json_obj running_status),
      badge = Some (Badge_wait, Progress 0 2), player = No_source,
      native_hls = True, hlsjs_supported = True\<rparr>"

definition token_after :: "control_response \<Rightarrow> int \<Rightarrow> stream_state \<Rightarrow> int" where
  "token_after r now s = startToken (fst (start_resumed r now s))"

definition after_failed_start :: "json_body \<Rightarrow> int \<Rightarrow> stream_state \<Rightarrow> stream_state" where
  "after_failed_start body now s = fst (start_resumed (Control_http False body) now s)"

section \<open>video.js: the detection timeline and the nearest entry\<close>

text \<open>
  A timeline entry as the detection response delivers it (\<open>t\<close>, \<open>count\<close>, \<open>boxes\<close>); a box
  holds native pixel coordinates.
\<close>

record box =
  box_x1 :: real
  box_y1 :: real
  box_x2 :: real
  box_y2 :: real

record entry =
  entry_t :: real
  entry_count :: int
  entry_boxes :: "box list"

definition to_int32 :: "int \<Rightarrow> int" where
  "to_int32 v = (v + 2 ^ 31) mod 2 ^ 32 - 2 ^ 31"

definition shift_right_1 :: "int \<Rightarrow> int" where
  "shift_right_1 v = to_int32 v div 2"

definition entry_at :: "entry list \<Rightarrow> int \<Rightarrow> js_error + entry" where
  "entry_at tline i =
     (if 0 \<le> i \<and> i < int (length tline) then Inr (tline ! nat i) else Inl TypeError)"

partial_function (option) search_loop ::
  "entry list \<Rightarrow> real \<Rightarrow> int \<Rightarrow> int \<Rightarrow> (js_error + int \<times> int) option" where
  "search_loop tline t lo hi =
     (if lo \<le> hi then
        (case entry_at tline (shift_right_1 (lo + hi)) of
           Inl e \<Rightarrow> Some (Inl e)
         | Inr m \<Rightarrow>
             if entry_t m < t then search_loop tline t (shift_right_1 (lo + hi) + 1) hi
             else search_loop tline t lo (shift_right_1 (lo + hi) - 1))
      else Some (Inr (lo, hi)))"

definition findNearestIndex :: "entry list \<Rightarrow> real \<Rightarrow> (js_error + int) option" where
  "findNearestIndex tline t =
     (let n = int (length tline) in
      if n = 0 then Some (Inr (- 1))
      else
        (case search_loop tline t 0 (n - 1) of
           None \<Rightarrow> None
         | Some (Inl e) \<Rightarrow> Some (Inl e)
         | Some (Inr (lo, hi)) \<Rightarrow>
             if hi < 0 then Some (Inr 0)
             else if n \<le> lo then Some (Inr (n - 1))
             else
               (case entry_at tline hi of
                  Inl e \<Rightarrow> Some (Inl e)
                | Inr a \<Rightarrow>
                    (case entry_at tline lo of
                       Inl e \<Rightarrow> Some (Inl e)
                     | Inr b \<Rightarrow>
                         Some (Inr (if to_double (t - entry_t a) \<le> to_double (entry_t b - t)
                                    then hi else lo))))))"

definition time_at :: "entry list \<Rightarrow> nat \<Rightarrow> real" where
  "time_at tline i = entry_t (tline ! i)"

definition sorted_by_t :: "entry list \<Rightarrow> bool" where
  "sorted_by_t tline \<longleftrightarrow> sorted (map entry_t tline)"

text \<open>
  What the claims say about the index \<open>r\<close> that \<open>findNearestIndex\<close> returns. \<open>nearest_at\<close>:
  no entry is nearer to the query. \<open>nearest_as_computed\<close>: no entry is nearer as far as the
  distances tell that the code computes, each a subtraction rounded to double.
  \<open>nearest_unless_rounded_tie\<close>: no entry is nearer, unless \<open>r\<close> is the entry before the query
  and the computed distances of the entries before and after the query are equal.
  \<open>earlier_on_tie\<close>: when the computed distances of the entry before and the entry after the
  query are equal, \<open>r\<close> is the entry before.
\<close>

definition nearest_at :: "entry list \<Rightarrow> real \<Rightarrow> nat \<Rightarrow> bool" where
  "nearest_at tline t r \<longleftrightarrow>
     r < length tline \<and>
     (\<forall>j<length tline. \<bar>time_at tline r - t\<bar> \<le> \<bar>time_at tline j - t\<bar>)"

definition nearest_as_computed :: "entry list \<Rightarrow> real \<Rightarrow> nat \<Rightarrow> bool" where
  "nearest_as_computed tline t r \<longleftrightarrow>
     r < length tline \<and>
     (\<forall>j<length tline. to_double \<bar>time_at tline r - t\<bar> \<le> to_double \<bar>time_at tline j - t\<bar>)"

definition rounded_tie :: "entry list \<Rightarrow> real \<Rightarrow> nat \<Rightarrow> bool" where
  "rounded_tie tline t i \<longleftrightarrow>
     Suc i < length tline \<and> time_at tline i < t \<and> t \<le> time_at tline (Suc i) \<and>
     to_double (t - time_at tline i) = to_double (time_at tline (Suc i) - t)"

definition nearest_unless_rounded_tie :: "entry list \<Rightarrow> real \<Rightarrow> nat \<Rightarrow> bool" where
  "nearest_unless_rounded_tie tline t r \<longleftrightarrow> nearest_at tline t r \<or> rounded_tie tline t r"

definition earlier_on_tie :: "entry list \<Rightarrow> real \<Rightarrow> nat \<Rightarrow> bool" where
  "earlier_on_tie tline t r \<longleftrightarrow> (\<forall>i. rounded_tie tline t i \<longrightarrow> r = i)"

text \<open>
  The doubles written \<open>0.001\<close> and \<open>0.023\<close> as times, and the double written \<open>0.012\<close> as the
  query.
\<close>

definition close_timeline :: "entry list" where
  "close_timeline =
     map (\<lambda>v. \<lparr>entry_t = v, entry_count = 0, entry_boxes = []\<rparr>)
       [1152921504606847 / 2 ^ 60, 3314649325744685 / 2 ^ 57]"

definition close_query :: real where
  "close_query = 3458764513820541 / 2 ^ 58"

definition example_timeline :: "entry list" where
  "example_timeline =
     map (\<lambda>v. \<lparr>entry_t = v, entry_count = 0, entry_boxes = []\<rparr>) [0, 1, 3]"

subsection \<open>video.js: the detection request\<close>

text \<open>
  The script's variables (\<open>currentFile\<close>, \<open>timeline\<close>, \<open>avgCount\<close>, \<open>maxCount\<close>,
  \<open>overlayVisible\<close>, \<open>lastIdx\<close>) and the page elements it writes: the count, the time, the
  statistics, the info line, the debug panel, the detect button, and the overlay canvas
  (the rectangles stroked on it, in display coordinates).
\<close>

text \<open>
  A value of the response that the script expects to be a number: absent (or falsy), a
  number, or something else that is truthy.
\<close>

datatype json_number = Absent | Num real | Not_a_number

record video_data =
  d_detail :: "jsstring option"
  d_timeline :: "entry list option"
  d_avg_count :: json_number
  d_max_count :: json_number

datatype video_response = Video_net_failed | Video_http bool "video_data option"

datatype thrown = Fetch_rejected | Detection_failed "jsstring option" | Thrown js_error

datatype count_text = Count_dash | Count_of int

datatype time_text = Time_dash | Time_of real real

datatype stats_text = Stats_dash | Stats_of real json_number

datatype info_text = Info_choose | Info_ready | Info_uploading | Info_done | Info_error thrown

datatype debug_text = Debug_empty | Debug_summary nat | Debug_error thrown

record video_state =
  currentFile :: "nat option"
  timeline :: "entry list"
  avgCount :: json_number
  maxCount :: json_number
  overlayVisible :: bool
  lastIdx :: int
  countEl :: count_text
  tEl :: time_text
  statsEl :: stats_text
  infoEl :: info_text
  debugEl :: debug_text
  btnDetect_disabled :: bool
  overlay :: "(real \<times> real \<times> real \<times> real) list"

text \<open>
  What a handler reads from the page when it runs: the playback position, the intrinsic and
  the rendered size of the video, and whether the canvas hands out a 2D context.
\<close>

record video_env =
  currentTime :: real
  videoWidth :: nat
  videoHeight :: nat
  rect_width :: real
  rect_height :: real
  has_context :: bool

definition clearOverlay :: "video_env \<Rightarrow> video_state \<Rightarrow> video_state" where
  "clearOverlay env s = (if has_context env then s\<lparr>overlay := []\<rparr> else s)"

definition drawBoxes :: "video_env \<Rightarrow> box list \<Rightarrow> video_state \<Rightarrow> video_state" where
  "drawBoxes env bs s =
     (if \<not> overlayVisible s then clearOverlay env s
      else if videoWidth env = 0 \<or> videoHeight env = 0 then s
      else if \<not> has_context env then s
      else
        (let sx = rect_width env / real (videoWidth env);
             sy = rect_height env / real (videoHeight env)
         in s\<lparr>overlay := map (\<lambda>b. (box_x1 b * sx, box_y1 b * sy,
                                      (box_x2 b - box_x1 b) * sx, (box_y2 b - box_y1 b) * sy)) bs\<rparr>))"

text \<open>
  A call that can throw returns \<open>Inl\<close> with the exception and the state at the throw; a
  call that does not return is \<open>None\<close>.
\<close>

definition updateOverlayFromCurrentTime ::
  "bool \<Rightarrow> video_env \<Rightarrow> video_state \<Rightarrow> (js_error \<times> video_state + video_state) option" where
  "updateOverlayFromCurrentTime onlyIfChanged env s =
     (if timeline s = []
      then Some (Inr ((clearOverlay env s)\<lparr>countEl := Count_dash, tEl := Time_dash, lastIdx := - 1\<rparr>))
      else
        (case findNearestIndex (timeline s) (currentTime env) of
           None \<Rightarrow> None
         | Some (Inl e) \<Rightarrow> Some (Inl (e, s))
         | Some (Inr idx) \<Rightarrow>
             if idx < 0 then Some (Inr s)
             else if onlyIfChanged \<and> idx = lastIdx s then Some (Inr s)
             else
               (case entry_at (timeline s) idx of
                  Inl e \<Rightarrow> Some (Inl (e, s\<lparr>lastIdx := idx\<rparr>))
                | Inr item \<Rightarrow>
                    Some (Inr (drawBoxes env (entry_boxes item)
                      (s\<lparr>lastIdx := idx, countEl := Count_of (entry_count item),
                         tEl := Time_of (entry_t item) (currentTime env)\<rparr>))))))"

definition or_zero :: "json_number \<Rightarrow> json_number" where
  "or_zero v = (case v of Absent \<Rightarrow> Num 0 | Num x \<Rightarrow> Num x | Not_a_number \<Rightarrow> Not_a_number)"

definition empty_data :: video_data where
  "empty_data = \<lparr>d_detail = None, d_timeline = None, d_avg_count = Absent, d_max_count = Absent\<rparr>"

definition detectVideo :: "video_state \<Rightarrow> video_state" where
  "detectVideo s =
     (if currentFile s = None then s
      else s\<lparr>btnDetect_disabled := True, infoEl := Info_uploading\<rparr>)"

text \<open>The \<open>try\<close> block of \<open>detectVideo\<close> from the return of \<open>fetch\<close>.\<close>

definition detect_try ::
  "video_response \<Rightarrow> video_env \<Rightarrow> video_state \<Rightarrow> (thrown \<times> video_state + video_state) option" where
  "detect_try r env s =
     (case r of
        Video_net_failed \<Rightarrow> Some (Inl (Fetch_rejected, s))
      | Video_http ok body \<Rightarrow>
          (let d = (case body of None \<Rightarrow> empty_data | Some b \<Rightarrow> b) in
           if \<not> ok then Some (Inl (Detection_failed (d_detail d), s))
           else
             (let s1 = s\<lparr>timeline := (case d_timeline d of None \<Rightarrow> [] | Some es \<Rightarrow> es),
                         avgCount := or_zero (d_avg_count d),
                         maxCount := or_zero (d_max_count d)\<rparr>
              in case avgCount s1 of
                   Num a \<Rightarrow>
                     (case updateOverlayFromCurrentTime False env
                             (s1\<lparr>statsEl := Stats_of a (maxCount s1), infoEl := Info_done,
                                 debugEl := Debug_summary (length (timeline s1))\<rparr>) of
                        None \<Rightarrow> None
                      | Some (Inl (e, s2)) \<Rightarrow> Some (Inl (Thrown e, s2))
                      | Some (Inr s2) \<Rightarrow> Some (Inr s2))
                 | _ \<Rightarrow> Some (Inl (Thrown TypeError, s1)))))"

definition detect_catch :: "thrown \<Rightarrow> video_env \<Rightarrow> video_state \<Rightarrow> video_state" where
  "detect_catch e env s =
     (clearOverlay env (s\<lparr>infoEl := Info_error e, timeline := [], avgCount := Num 0,
        maxCount := Num 0, statsEl := Stats_dash\<rparr>))\<lparr>debugEl := Debug_error e\<rparr>"

definition detectVideo_resumed ::
  "video_response \<Rightarrow> video_env \<Rightarrow> video_state \<Rightarrow> video_state option" where
  "detectVideo_resumed r env s =
     (case detect_try r env s of
        None \<Rightarrow> None
      | Some (Inl (e, s1)) \<Rightarrow> Some ((detect_catch e env s1)\<lparr>btnDetect_disabled := False\<rparr>)
      | Some (Inr s1) \<Rightarrow> Some (s1\<lparr>btnDetect_disabled := False\<rparr>))"

definition submission_fails :: "video_response \<Rightarrow> video_env \<Rightarrow> video_state \<Rightarrow> bool" where
  "submission_fails r env s =
     (case detect_try r env s of Some (Inl x) \<Rightarrow> True | _ \<Rightarrow> False)"

definition results_reset :: "video_state \<Rightarrow> bool" where
  "results_reset s \<longleftrightarrow>
     timeline s = [] \<and> avgCount s = Num 0 \<and> maxCount s = Num 0 \<and> statsEl s = Stats_dash \<and>
     overlay s = []"

definition loaded_video :: video_state where
  "loaded_video =
     \<lparr>currentFile = Some 1, timeline = example_timeline, avgCount = Num 2, maxCount = Num 3,
      overlayVisible = True, lastIdx = 1, countEl = Count_of 0, tEl = Time_of 1 1,
      statsEl = Stats_of 2 (Num 3), infoEl = Info_uploading, debugEl = Debug_summary 3,
      btnDetect_disabled = True, overlay = [(0, 0, 10, 10)]\<rparr>"

definition example_env :: video_env where
  "example_env =
     \<lparr>currentTime = 1, videoWidth = 640, videoHeight = 360, rect_width = 640,
      rect_height = 360, has_context = True\<rparr>"

section \<open>photo.js: the ROI polygon editor\<close>

text \<open>
  The script's variables (\<open>file\<close>, here \<open>photo_file\<close>, \<open>imgW\<close>, \<open>imgH\<close>, \<open>boxes\<close>, \<open>roiPts\<close>, \<open>roiEdit\<close>,
  \<open>dragIdx\<close>) and the page elements it reads back or reports through: the \<open>roiEnabled\<close>
  checkbox, the two result counters and the status line. A file is known by a number.
  Button labels, disabled flags and the pixels that \<open>draw\<close> paints are presentation and
  are left out; every handler is modelled as callable in every state.
\<close>

record point =
  pt_x :: real
  pt_y :: real

datatype status_text =
    Status_empty
  | Status_roi_edit bool
  | Status_loaded nat nat
  | Status_uploading
  | Status_http_error nat
  | Status_ok "int option" nat bool
  | Status_thrown

record photo_state =
  photo_file :: "nat option"
  imgW :: nat
  imgH :: nat
  boxes :: "box list"
  roiPts :: "point list"
  roiEdit :: bool
  dragIdx :: int
  roiEnabled :: bool
  count_shown :: "int option"
  boxCount_shown :: "nat option"
  status_line :: status_text

text \<open>
  A JavaScript division by zero yields an infinity or NaN; \<open>None\<close> stands for such a
  non-finite number (every comparison with it is false, and JSON writes it as \<open>null\<close>).
\<close>

definition js_div :: "real \<Rightarrow> real \<Rightarrow> real option" where
  "js_div a b = (if b = 0 then None else Some (a / b))"

definition js_round :: "real \<Rightarrow> int" where
  "js_round v = \<lfloor>v + 1 / 2\<rfloor>"

text \<open>
  \<open>canvasSizeToImage\<close> reads the rendered size of the image (\<open>rw\<close> by \<open>rh\<close>, from
  \<open>getBoundingClientRect\<close>) and returns the display size \<open>(w, h)\<close>, each at least 1.
\<close>

definition canvasSizeToImage :: "real \<Rightarrow> real \<Rightarrow> nat \<times> nat" where
  "canvasSizeToImage rw rh = (nat (max 1 (js_round rw)), nat (max 1 (js_round rh)))"

definition dispToImg :: "real \<Rightarrow> real \<Rightarrow> nat \<Rightarrow> nat \<Rightarrow> real \<Rightarrow> real \<Rightarrow> point" where
  "dispToImg rw rh iw ih x y =
     (case canvasSizeToImage rw rh of
        (w, h) \<Rightarrow> \<lparr>pt_x = (x / real w) * real iw, pt_y = (y / real h) * real ih\<rparr>)"

definition imgToDisp ::
  "real \<Rightarrow> real \<Rightarrow> nat \<Rightarrow> nat \<Rightarrow> real \<Rightarrow> real \<Rightarrow> real option \<times> real option" where
  "imgToDisp rw rh iw ih x y =
     (case canvasSizeToImage rw rh of
        (w, h) \<Rightarrow> (map_option (\<lambda>q. q * real w) (js_div x (real iw)),
                   map_option (\<lambda>q. q * real h) (js_div y (real ih))))"

text \<open>
  The two transforms as the handlers compute them, every division and multiplication
  rounded to double. The pointer position and the sizes are finite and far from the
  overflow threshold, so a converted coordinate is a finite double.
\<close>

definition dispToImg_dbl :: "real \<Rightarrow> real \<Rightarrow> nat \<Rightarrow> nat \<Rightarrow> real \<Rightarrow> real \<Rightarrow> point" where
  "dispToImg_dbl rw rh iw ih x y =
     (case canvasSizeToImage rw rh of
        (w, h) \<Rightarrow>
          \<lparr>pt_x = to_double (to_double (x / real w) * real iw),
           pt_y = to_double (to_double (y / real h) * real ih)\<rparr>)"

definition imgToDisp_dbl ::
  "real \<Rightarrow> real \<Rightarrow> nat \<Rightarrow> nat \<Rightarrow> real \<Rightarrow> real \<Rightarrow> real option \<times> real option" where
  "imgToDisp_dbl rw rh iw ih x y =
     (case canvasSizeToImage rw rh of
        (w, h) \<Rightarrow>
          (map_option (\<lambda>q. to_double (to_double q * real w)) (js_div x (real iw)),
           map_option (\<lambda>q. to_double (to_double q * real h)) (js_div y (real ih))))"

text \<open>
  The test inside the loop of \<open>hitTestPoint\<close>, with \<open>r = 8\<close>: the two differences, the two
  squares and their sum are each rounded to double before the sum is compared with
  \<open>r * r\<close>. A display coordinate that is not finite makes the sum \<open>Infinity\<close> or NaN, and the
  comparison false.
\<close>

definition hit :: "real \<Rightarrow> real \<Rightarrow> nat \<Rightarrow> nat \<Rightarrow> real \<Rightarrow> real \<Rightarrow> point \<Rightarrow> bool" where
  "hit rw rh iw ih dispX dispY p =
     (case imgToDisp_dbl rw rh iw ih (pt_x p) (pt_y p) of
        (Some qx, Some qy) \<Rightarrow>
          (let dx = to_double (dispX - qx); dy = to_double (dispY - qy)
           in to_double (to_double (dx * dx) + to_double (dy * dy)) \<le> 8 * 8)
      | _ \<Rightarrow> False)"

fun hit_loop ::
  "real \<Rightarrow> real \<Rightarrow> nat \<Rightarrow> nat \<Rightarrow> real \<Rightarrow> real \<Rightarrow> point list \<Rightarrow> int \<Rightarrow> int" where
  "hit_loop rw rh iw ih dispX dispY [] i = - 1"
| "hit_loop rw rh iw ih dispX dispY (p # ps) i =
     (if hit rw rh iw ih dispX dispY p then i
      else hit_loop rw rh iw ih dispX dispY ps (i + 1))"

definition hitTestPoint :: "real \<Rightarrow> real \<Rightarrow> real \<Rightarrow> real \<Rightarrow> photo_state \<Rightarrow> int" where
  "hitTestPoint rw rh dispX dispY s = hit_loop rw rh (imgW s) (imgH s) dispX dispY (roiPts s) 0"

definition resetResults :: "photo_state \<Rightarrow> photo_state" where
  "resetResults s = s\<lparr>boxes := [], count_shown := None, boxCount_shown := None\<rparr>"

definition clearAll :: "photo_state \<Rightarrow> photo_state" where
  "clearAll s =
     (resetResults (s\<lparr>photo_file := None, imgW := 0, imgH := 0, boxes := [], roiPts := [],
        roiEdit := False, dragIdx := - 1\<rparr>))\<lparr>status_line := Status_empty\<rparr>"

definition btnEditRoi_click :: "photo_state \<Rightarrow> photo_state" where
  "btnEditRoi_click s =
     (if photo_file s = None then s
      else s\<lparr>roiEdit := \<not> roiEdit s, dragIdx := - 1,
             status_line := Status_roi_edit (\<not> roiEdit s)\<rparr>)"

definition btnClearRoi_click :: "photo_state \<Rightarrow> photo_state" where
  "btnClearRoi_click s = s\<lparr>roiPts := [], dragIdx := - 1\<rparr>"

datatype key = Escape | Other_key

definition keydown :: "key \<Rightarrow> photo_state \<Rightarrow> photo_state" where
  "keydown k s =
     (if k = Escape \<and> roiEdit s
      then s\<lparr>roiEdit := False, dragIdx := - 1, status_line := Status_roi_edit False\<rparr>
      else s)"

text \<open>
  The pointer handlers take the pointer position relative to the overlay (\<open>x\<close>, \<open>y\<close>) and
  the rendered size of the image.
\<close>

definition pointerdown :: "real \<Rightarrow> real \<Rightarrow> real \<Rightarrow> real \<Rightarrow> photo_state \<Rightarrow> photo_state" where
  "pointerdown x y rw rh s =
     (if \<not> roiEdit s \<or> imgW s = 0 then s
      else
        (let idx = hitTestPoint rw rh x y s in
         if 0 \<le> idx then s\<lparr>dragIdx := idx\<rparr>
         else s\<lparr>roiPts := roiPts s @ [dispToImg_dbl rw rh (imgW s) (imgH s) x y]\<rparr>))"

text \<open>
  \<open>roiPts[dragIdx] = ...\<close> past the end of the array would leave holes in it, which a list
  of points cannot hold: the model stops there (\<open>None\<close>).
\<close>

definition pointermove ::
  "real \<Rightarrow> real \<Rightarrow> real \<Rightarrow> real \<Rightarrow> photo_state \<Rightarrow> photo_state option" where
  "pointermove x y rw rh s =
     (if \<not> roiEdit s \<or> dragIdx s < 0 \<or> imgW s = 0 then Some s
      else
        (let p = dispToImg_dbl rw rh (imgW s) (imgH s) x y;
             q = \<lparr>pt_x = max 0 (min (real (imgW s) - 1) (pt_x p)),
                  pt_y = max 0 (min (real (imgH s) - 1) (pt_y p))\<rparr>
         in if dragIdx s < int (length (roiPts s))
            then Some (s\<lparr>roiPts := (roiPts s)[nat (dragIdx s) := q]\<rparr>)
            else None))"

definition pointerup :: "photo_state \<Rightarrow> photo_state" where
  "pointerup s = (if 0 \<le> dragIdx s then s\<lparr>dragIdx := - 1\<rparr> else s)"

definition fileInput_change :: "nat option \<Rightarrow> photo_state \<Rightarrow> photo_state" where
  "fileInput_change f s =
     (case f of
        None \<Rightarrow> s
      | Some g \<Rightarrow> (resetResults (s\<lparr>photo_file := Some g\<rparr>))\<lparr>roiPts := [], roiEdit := False, dragIdx := - 1\<rparr>)"

definition img_onload :: "nat \<Rightarrow> nat \<Rightarrow> photo_state \<Rightarrow> photo_state" where
  "img_onload nw nh s = s\<lparr>imgW := nw, imgH := nh, status_line := Status_loaded nw nh\<rparr>"





definition btnDetect_click :: "photo_state \<Rightarrow> photo_state" where
  "btnDetect_click s =
     (if photo_file s = None then s else resetResults (s\<lparr>status_line := Status_uploading\<rparr>))"

text \<open>
  What comes back from \<open>fetch\<close>: a rejection, or a response with its \<open>ok\<close> flag, its status
  code and the parsed body (\<open>boxes\<close> when the body holds an array there, and \<open>count\<close>).
\<close>

datatype photo_response =
    Photo_net_failed
  | Photo_http bool nat "box list option" "int option"

definition btnDetect_done :: "bool \<Rightarrow> photo_response \<Rightarrow> photo_state \<Rightarrow> photo_state" where
  "btnDetect_done useRoi r s =
     (case r of
        Photo_net_failed \<Rightarrow> s\<lparr>status_line := Status_thrown\<rparr>
      | Photo_http ok code bs c \<Rightarrow>
          if \<not> ok then s\<lparr>status_line := Status_http_error code\<rparr>
          else
            (let bxs = (case bs of None \<Rightarrow> [] | Some l \<Rightarrow> l) in
             s\<lparr>boxes := bxs, count_shown := c, boxCount_shown := Some (length bxs),
               status_line := Status_ok c (length bxs) useRoi\<rparr>))"

datatype photo_event =
    Btn_clear
  | Btn_clear_status
  | Btn_edit_roi
  | Btn_clear_roi
  | Key_down key
  | Pointer_down real real real real
  | Pointer_move real real real real
  | Pointer_up
  | File_change "nat option"
  | Img_load nat nat
  | Roi_enabled_toggle
  | Btn_detect
  | Detect_done bool photo_response
  | Window_resize

definition photo_step :: "photo_event \<Rightarrow> photo_state \<Rightarrow> photo_state option" where
  "photo_step e s =
     (case e of
        Btn_clear \<Rightarrow> Some (clearAll s)
      | Btn_clear_status \<Rightarrow> Some (s\<lparr>status_line := Status_empty\<rparr>)
      | Btn_edit_roi \<Rightarrow> Some (btnEditRoi_click s)
      | Btn_clear_roi \<Rightarrow> Some (btnClearRoi_click s)
      | Key_down k \<Rightarrow> Some (keydown k s)
      | Pointer_down x y rw rh \<Rightarrow> Some (pointerdown x y rw rh s)
      | Pointer_move x y rw rh \<Rightarrow> pointermove x y rw rh s
      | Pointer_up \<Rightarrow> Some (pointerup s)
      | File_change f \<Rightarrow> Some (fileInput_change f s)
      | Img_load nw nh \<Rightarrow> Some (img_onload nw nh s)
      | Roi_enabled_toggle \<Rightarrow> Some (s\<lparr>roiEnabled := \<not> roiEnabled s\<rparr>)
      | Btn_detect \<Rightarrow> Some (btnDetect_click s)
      | Detect_done u r \<Rightarrow> Some (btnDetect_done u r s)
      | Window_resize \<Rightarrow> Some s)"

fun photo_run :: "photo_event list \<Rightarrow> photo_state \<Rightarrow> photo_state option" where
  "photo_run [] s = Some s"
| "photo_run (e # es) s = (case photo_step e s of None \<Rightarrow> None | Some s' \<Rightarrow> photo_run es s')"

text \<open>The state once the script has loaded: it ends with a call of \<open>clearAll\<close>.\<close>

definition photo_init :: "bool \<Rightarrow> photo_state" where
  "photo_init checked =
     \<lparr>photo_file = None, imgW = 0, imgH = 0, boxes = [], roiPts = [], roiEdit = False,
      dragIdx = - 1, roiEnabled = checked, count_shown = None, boxCount_shown = None,
      status_line = Status_empty\<rparr>"

inductive photo_reachable :: "photo_state \<Rightarrow> bool" where
  init: "photo_reachable (photo_init checked)"
| step: "photo_reachable s \<Longrightarrow> photo_step e s = Some s' \<Longrightarrow> photo_reachable s'"

definition editor_inv :: "photo_state \<Rightarrow> bool" where
  "editor_inv s \<longleftrightarrow>
     dragIdx s = - 1 \<or> (roiEdit s \<and> 0 \<le> dragIdx s \<and> dragIdx s < int (length (roiPts s)))"

subsection \<open>Example states of the editor, and what the claims say\<close>

definition drag_events :: "photo_event list" where
  "drag_events =
     [File_change (Some 1), Img_load 200 200, Btn_edit_roi,
      Pointer_down 50 50 200 200, Pointer_down 150 150 200 200, Pointer_down 50 50 200 200]"

definition two_point_drag :: photo_state where
  "two_point_drag =
     \<lparr>photo_file = Some 1, imgW = 200, imgH = 200, boxes = [],
      roiPts = [\<lparr>pt_x = 50, pt_y = 50\<rparr>, \<lparr>pt_x = 150, pt_y = 150\<rparr>], roiEdit = True,
      dragIdx = 0, roiEnabled = True, count_shown = None, boxCount_shown = None,
      status_line = Status_roi_edit True\<rparr>"

definition unloaded_events :: "photo_event list" where
  "unloaded_events = [File_change (Some 1), Btn_edit_roi]"

definition unloaded_edit :: photo_state where
  "unloaded_edit =
     \<lparr>photo_file = Some 1, imgW = 0, imgH = 0, boxes = [], roiPts = [], roiEdit = True,
      dragIdx = - 1, roiEnabled = False, count_shown = None, boxCount_shown = None,
      status_line = Status_roi_edit True\<rparr>"







text \<open>
  Floating point: every arithmetic operation returns its exact result with a relative error
  of at most the unit roundoff (the standard model, valid while nothing overflows or
  underflows). \<open>rounded d v\<close> is the exact value \<open>v\<close> delivered with relative error \<open>d\<close>;
  the two transforms are given the errors of their four operations (the division and the
  multiplication of each coordinate).
\<close>

definition rounded :: "real \<Rightarrow> real \<Rightarrow> real" where
  "rounded d v = v * (1 + d)"

record rounding =
  err_div_x :: real
  err_mul_x :: real
  err_div_y :: real
  err_mul_y :: real

definition within_roundoff :: "real \<Rightarrow> rounding \<Rightarrow> bool" where
  "within_roundoff u e \<longleftrightarrow>
     \<bar>err_div_x e\<bar> \<le> u \<and> \<bar>err_mul_x e\<bar> \<le> u \<and> \<bar>err_div_y e\<bar> \<le> u \<and> \<bar>err_mul_y e\<bar> \<le> u"

definition exact :: rounding where
  "exact = \<lparr>err_div_x = 0, err_mul_x = 0, err_div_y = 0, err_mul_y = 0\<rparr>"

definition dispToImg_fl ::
  "rounding \<Rightarrow> real \<Rightarrow> real \<Rightarrow> nat \<Rightarrow> nat \<Rightarrow> real \<Rightarrow> real \<Rightarrow> point" where
  "dispToImg_fl e rw rh iw ih x y =
     (case canvasSizeToImage rw rh of
        (w, h) \<Rightarrow>
          \<lparr>pt_x = rounded (err_mul_x e) (rounded (err_div_x e) (x / real w) * real iw),
           pt_y = rounded (err_mul_y e) (rounded (err_div_y e) (y / real h) * real ih)\<rparr>)"

definition imgToDisp_fl ::
  "rounding \<Rightarrow> real \<Rightarrow> real \<Rightarrow> nat \<Rightarrow> nat \<Rightarrow> real \<Rightarrow> real \<Rightarrow> real option \<times> real option" where
  "imgToDisp_fl e rw rh iw ih x y =
     (case canvasSizeToImage rw rh of
        (w, h) \<Rightarrow>
          (map_option (\<lambda>q. rounded (err_mul_x e) (rounded (err_div_x e) q * real w))
             (js_div x (real iw)),
           map_option (\<lambda>q. rounded (err_mul_y e) (rounded (err_div_y e) q * real h))
             (js_div y (real ih))))"


text \<open>A value in the range where doubles have their full 53 bits, or zero.\<close>

definition normal_or_zero :: "real \<Rightarrow> bool" where
  "normal_or_zero v \<longleftrightarrow> v = 0 \<or> (2 powi (- 1022) \<le> \<bar>v\<bar> \<and> \<bar>v\<bar> < 2 powi 1023)"



section \<open>Properties of the segment count\<close>

lemma js_lits: "js ''#'' = [35]" "js ''.ts'' = [46,116,115]" "js ''.m4s'' = [46, 109, 52, 115]"
  by (simp_all add: js_def)

lemma count_loop_filter:
  "count_loop lns n =
     n + length (filter (\<lambda>l. \<not> startsWith l (js ''#'') \<and>
                              (endsWith l (js ''.ts'') \<or> endsWith l (js ''.m4s''))) lns)"
  by (induction lns arbitrary: n) auto

lemma example_playlist_lines:
  "split_lines example_playlist =
     [js ''#EXTM3U'', js ''seg1.ts'', js ''seg2.ts'', js ''#EXT-X-ENDLIST'']"
  by (simp add: split_lines_def example_playlist_def js_def)

lemma trim_example_lines:
  "trim (js ''#EXTM3U'') = js ''#EXTM3U''" "trim (js ''seg1.ts'') = js ''seg1.ts''"
  "trim (js ''seg2.ts'') = js ''seg2.ts''" "trim (js ''#EXT-X-ENDLIST'') = js ''#EXT-X-ENDLIST''"
  by (simp_all add: trim_def js_def is_js_space_def)

lemma example_line_tests:
  "startsWith (js ''#EXTM3U'') [35]" "\<not> startsWith (js ''seg1.ts'') [35]"
  "\<not> startsWith (js ''seg2.ts'') [35]" "startsWith (js ''#EXT-X-ENDLIST'') [35]"
  "endsWith (js ''seg1.ts'') [46,116,115]" "endsWith (js ''seg2.ts'') [46,116,115]"
  "js ''#EXTM3U'' \<noteq> []" "js ''seg1.ts'' \<noteq> []" "js ''seg2.ts'' \<noteq> []" "js ''#EXT-X-ENDLIST'' \<noteq> []"
  by (simp_all add: js_def startsWith_def endsWith_def)

lemma count_example_playlist: "countSegmentsInM3U8 example_playlist = 2"
  by (simp add: countSegmentsInM3U8_def example_playlist_lines trim_example_lines js_lits example_line_tests)

lemma padded_line_eval:
  "split_lines padded_line = [js ''seg1.ts '']"
  "trim (js ''seg1.ts '') = js ''seg1.ts''"
  "js ''seg1.ts '' \<noteq> []"
  "\<not> endsWith (js ''seg1.ts '') [46,116,115]"
  "\<not> endsWith (js ''seg1.ts '') [46, 109, 52, 115]"
  by (simp_all add: padded_line_def split_lines_def trim_def js_def is_js_space_def endsWith_def)

lemma segment_line_filter:
  "filter (\<lambda>l. \<not> startsWith l (js ''#'') \<and>
                      (endsWith l (js ''.ts'') \<or> endsWith l (js ''.m4s'')))
          (filter (\<lambda>s. s \<noteq> []) ls) = filter segment_line ls"
    by (induction ls) (auto simp: segment_line_def)

lemma padded_playlist_eval:
  "split_lines padded_playlist = [js ''  seg1.ts '', js '' #x.ts'']"
  "trim (js ''  seg1.ts '') = js ''seg1.ts''"
  "trim (js '' #x.ts'') = js ''#x.ts''"
  "startsWith (js ''#x.ts'') [35]" "js ''#x.ts'' \<noteq> []"
  by (simp_all add: padded_playlist_def split_lines_def trim_def js_def is_js_space_def startsWith_def)

text \<open>
  C4, as stated, fails: the code trims every line before it looks at it, so a segment line
  followed by a blank is counted although the line itself does not end with the suffix.
\<close>

theorem countSegments_untrimmed_counterexample:
  "countSegmentsInM3U8 padded_line = 1 \<and> stated_segment_count padded_line = 0"
  by (simp add: countSegmentsInM3U8_def stated_segment_count_def segment_line_def
      padded_line_eval example_line_tests js_lits)

text \<open>
  C4, amended: for every playlist text, \<open>countSegmentsInM3U8\<close> returns the number of lines
  that, once leading and trailing whitespace is removed, are non-empty, do not start with
  \<open>#\<close> and end with \<open>.ts\<close> or \<open>.m4s\<close>; on the playlist
  \<open>#EXTM3U / seg1.ts / seg2.ts / #EXT-X-ENDLIST\<close> it returns 2.
\<close>

theorem countSegments_counts_trimmed_lines:
  "countSegmentsInM3U8 text = length (filter segment_line (map trim (split_lines text)))
   \<and> countSegmentsInM3U8 example_playlist = 2"
  unfolding countSegmentsInM3U8_def count_loop_filter segment_line_filter
  using count_example_playlist
  unfolding countSegmentsInM3U8_def count_loop_filter segment_line_filter
  by simp

text \<open>
  C4, witness: a playlist whose first line is a segment name between blanks and whose second
  line is a comment after a blank counts one segment.
\<close>

theorem countSegments_counts_trimmed_lines_witness:
  "countSegmentsInM3U8 padded_playlist = 1"
proof -
  have "filter segment_line (map trim (split_lines padded_playlist)) = [js ''seg1.ts'']"
    by (simp add: padded_playlist_eval segment_line_def example_line_tests js_lits)
  with countSegments_counts_trimmed_lines [of padded_playlist] show ?thesis
    by simp
qed

section \<open>Properties of the stream readiness controller\<close>

lemma rtsp_url_trim: "trim rtsp_url \<noteq> []"
  by (simp add: rtsp_url_def trim_def js_def is_js_space_def)

lemma startToken_appendLog [simp]: "startToken (appendLog l s) = startToken s"
  by (simp add: appendLog_def)

lemma startToken_setHlsBadge [simp]: "startToken (setHlsBadge k x s) = startToken s"
  by (simp add: setHlsBadge_def split: option.splits)

lemma startToken_setStatus [simp]: "startToken (setStatus d s) = startToken s"
  by (simp add: setStatus_def)

lemma startToken_loadPlayer [simp]: "startToken (loadPlayer u now s) = startToken s"
  by (simp add: loadPlayer_def Let_def)

lemma startToken_wait_loop [simp]: "startToken (fst (wait_loop fr now s)) = startToken s"
  by (simp add: wait_loop_def)

lemma startToken_after_wait [simp]:
  "startToken (fst (after_wait c fr now r)) = startToken (fst r)"
  by (cases r) (auto simp: after_wait_def split: wait_step.splits wait_result.splits caller.splits)

lemma startToken_waitForHlsReady [simp]:
  "startToken (fst (waitForHlsReady c u token now s)) = startToken s"
  by (simp add: waitForHlsReady_def Let_def)

lemma start_net_failure_run:
  "stream_run start_net_failure (stream_init True True) =
     Some \<lparr>ctl = ctl (stream_init True True), tasks = [], uncaught = [NetworkError]\<rparr>"
  by (simp add: start_net_failure_def stream_init_def stream_step_def startPipeline_def
      rtsp_url_trim settle_def resume_def start_resumed_def)

lemma example_playlist_nonempty: "example_playlist \<noteq> []"
  by (simp add: example_playlist_def js_def)

lemmas stream_eval =
  stream_init_def stream_step_def startPipeline_def rtsp_url_trim settle_def resume_def
  start_resumed_def stop_resumed_def reload_resumed_def reload_click_def reload_caught_def
  stopPipeline_def waitForHlsReady_def wait_loop_def wait_fetched_def after_wait_def
  setStatus_def setHlsBadge_def appendLog_def stopPlayer_def loadPlayer_def MAX_LOG_LINES_def
  count_example_playlist example_playlist_nonempty running_status_def stopped_status_def Let_def

text \<open>
  C3: the claim wants every network-level failure of an HTTP call caught and logged. The
  code does so for reload only. With the network down, a click on Start (address
  \<open>rtsp://x\<close>) ends with the rejection of \<open>fetch\<close> leaving \<open>startPipeline\<close> uncaught: no
  log line is written and the state is as it was. A click on Stop ends the same way, before
  \<open>stopPlayer\<close> runs. A click on Reload catches the rejection, logs it and sets the badge to
  error.
\<close>

theorem network_failure_escapes_start_and_stop:
  "stream_run start_net_failure (stream_init True True) =
     Some \<lparr>ctl = ctl (stream_init True True), tasks = [], uncaught = [NetworkError]\<rparr> \<and>
   map_option (\<lambda>pg. (logLines (ctl pg), uncaught pg))
     (stream_run stop_net_failure (stream_init True True)) = Some ([], [NetworkError]) \<and>
   map_option (\<lambda>pg. (logLines (ctl pg), badge (ctl pg), uncaught pg))
     (stream_run reload_net_failure (stream_init True True)) =
     Some ([Log_player_stopped Reason_reload, Log_reload_error NetworkError],
           Some (Badge_error, Extra_reload_failed), [])"
  by (simp add: start_net_failure_run)
     (simp add: stop_net_failure_def reload_net_failure_def stream_eval)

text \<open>
  C1: the claim wants the wait loop to check its token before every side effect. The code
  checks it at the top of each iteration only, not after the playlist fetch returns. Start
  is clicked and answered (token 1), the wait is suspended in its fetch, Stop is clicked
  (token 2, badge idle) and answered (player stopped); then the fetch of the superseded
  wait returns a playlist of two segments: the wait sets the badge to ready, returns
  success, and \<open>startPipeline\<close> loads the player.
\<close>

theorem stale_wait_hands_off_after_stop:
  "stream_run stop_during_wait (stream_init True True) =
     Some \<lparr>ctl = \<lparr>startToken = 2,
                  logLines = [Log_pipeline_started, Log_player_stopped Reason_pipeline,
                              Log_loading (Some (js ''/hls/x.m3u8'')) 400, Log_native_hls],
                  safeLastStatus = Some (Json_obj stopped_status),
                  badge = Some (Badge_ready, Segs 2),
                  player = Native_source (Some (js ''/hls/x.m3u8'')) 400,
                  native_hls = True, hlsjs_supported = True\<rparr>,
           tasks = [], uncaught = []\<rparr>"
  by (simp add: stop_during_wait_def stream_eval)

lemma start_resumed_token:
  "token_after r now s =
     (case r of
        Control_net_failed \<Rightarrow> startToken s
      | Control_http ok body \<Rightarrow> if ok \<and> body \<noteq> Not_json then startToken s + 1 else startToken s)"
  by (simp add: token_after_def start_resumed_def Let_def
      split: control_response.splits json_body.splits)

text \<open>
  C9: a start whose control request is answered with a non-success status leaves
  \<open>startToken\<close> as it was (a successful answer with a JSON object increments it). So a
  wait in flight that holds the current token passes its check when its pause ends and goes
  on to fetch the playlist; and when the playlist it fetches has enough segments, it
  returns success and the player is loaded.
\<close>

theorem failed_start_keeps_token:
  fixes fr :: wait_frame and s :: stream_state
  assumes s': "s' = after_failed_start body now s"
  shows "startToken s' = startToken s \<and>
         token_after (Control_http True (Json_obj d)) now s = startToken s + 1 \<and>
         (w_token fr = startToken s \<and> now1 - w_start fr < w_timeoutMs fr \<longrightarrow>
            resume (Waiting From_start fr At_sleep) Timer now1 s' =
              Some (s', Suspended (Waiting From_start fr At_fetch))) \<and>
         (text \<noteq> [] \<and> w_minSegments fr \<le> countSegmentsInM3U8 text \<longrightarrow>
            resume (Waiting From_start fr At_fetch) (Playlist (Playlist_http True text)) now2 s' =
              Some (loadPlayer (w_hlsUrl fr) now2
                      (setHlsBadge Badge_ready (Segs (countSegmentsInM3U8 text))
                         (setHlsBadge Badge_wait
                            (Progress (countSegmentsInM3U8 text) (w_minSegments fr)) s')),
                    Returned))"
proof -
  have tok: "startToken s' = startToken s"
    using start_resumed_token [of "Control_http False body" now s]
    by (simp add: s' after_failed_start_def token_after_def)
  have inc: "token_after (Control_http True (Json_obj d)) now s = startToken s + 1"
    by (simp add: start_resumed_token)
  have slept: "resume (Waiting From_start fr At_sleep) Timer now1 s' =
      Some (s', Suspended (Waiting From_start fr At_fetch))"
    if "w_token fr = startToken s" "now1 - w_start fr < w_timeoutMs fr"
    using that tok by (simp add: resume_def wait_loop_def after_wait_def)
  have fetched: "resume (Waiting From_start fr At_fetch) (Playlist (Playlist_http True text)) now2 s' =
      Some (loadPlayer (w_hlsUrl fr) now2
              (setHlsBadge Badge_ready (Segs (countSegmentsInM3U8 text))
                 (setHlsBadge Badge_wait
                    (Progress (countSegmentsInM3U8 text) (w_minSegments fr)) s')),
            Returned)"
    if "text \<noteq> []" "w_minSegments fr \<le> countSegmentsInM3U8 text"
    using that by (simp add: resume_def wait_fetched_def after_wait_def Let_def)
  from tok inc slept fetched show ?thesis by blast
qed

lemma failed_start_at_waiting_state:
  "after_failed_start (Json_obj stopped_status) 600 waiting_state =
     \<lparr>startToken = 1, logLines = [Log_pipeline_started, Log_start_failed None],
      safeLastStatus = Some (Json_obj stopped_status),
      badge = Some (Badge_wait, Progress 0 2), player = No_source,
      native_hls = True, hlsjs_supported = True\<rparr>"
  by (simp add: after_failed_start_def start_resumed_def waiting_state_def stopped_status_def setStatus_def
      appendLog_def MAX_LOG_LINES_def)

text \<open>
  C9, witness: a wait with token 1 is in flight, a second start is answered with a
  non-success status; the token is still 1, the wait goes on after its pause, and on the
  example playlist it loads the player.
\<close>

theorem failed_start_keeps_token_witness:
  "startToken (after_failed_start (Json_obj stopped_status) 600 waiting_state) = 1 \<and>
   w_token example_frame = startToken waiting_state \<and>
   map_option snd
     (resume (Waiting From_start example_frame At_sleep) Timer 700
        (after_failed_start (Json_obj stopped_status) 600 waiting_state))
     = Some (Suspended (Waiting From_start example_frame At_fetch)) \<and>
   map_option (\<lambda>r. (player (fst r), snd r))
     (resume (Waiting From_start example_frame At_fetch)
        (Playlist (Playlist_http True example_playlist)) 1200
        (after_failed_start (Json_obj stopped_status) 600 waiting_state))
     = Some (Native_source (Some (js ''/hls/x.m3u8'')) 1200, Returned)"
proof -
  let ?s = "after_failed_start (Json_obj stopped_status) 600 waiting_state"
  have a: "w_token example_frame = startToken waiting_state"
    "700 - w_start example_frame < w_timeoutMs example_frame"
    "w_minSegments example_frame \<le> countSegmentsInM3U8 example_playlist"
    "startToken waiting_state = 1" "w_hlsUrl example_frame = Some (js ''/hls/x.m3u8'')"
    by (simp_all add: example_frame_def waiting_state_def count_example_playlist)
  note t = failed_start_keeps_token [OF refl, of "Json_obj stopped_status" 600 waiting_state
      running_status example_frame 700 example_playlist 1200]
  from t a(1,2) have slept: "resume (Waiting From_start example_frame At_sleep) Timer 700 ?s
     = Some (?s, Suspended (Waiting From_start example_frame At_fetch))"
    by blast
  from t a(3) example_playlist_nonempty
  have fetched: "resume (Waiting From_start example_frame At_fetch)
        (Playlist (Playlist_http True example_playlist)) 1200 ?s
     = Some (loadPlayer (w_hlsUrl example_frame) 1200
              (setHlsBadge Badge_ready (Segs (countSegmentsInM3U8 example_playlist))
                 (setHlsBadge Badge_wait
                    (Progress (countSegmentsInM3U8 example_playlist) (w_minSegments example_frame))
                    ?s)),
            Returned)"
    by blast
  from t a(4) have tok: "startToken ?s = 1" by simp
  show ?thesis
    unfolding slept fetched
    using a(1) tok
    by (simp add: failed_start_at_waiting_state a(5) loadPlayer_def setHlsBadge_def appendLog_def
        Let_def)
qed

section \<open>Properties of double-precision rounding\<close>

declare exp_up.simps [simp del] exp_down.simps [simp del]

lemma exp_up_spec:
  "e0 \<le> 1023 \<Longrightarrow> 2 powi e0 \<le> x \<Longrightarrow>
     e0 \<le> exp_up e0 x \<and> exp_up e0 x \<le> 1023 \<and> 2 powi (exp_up e0 x) \<le> x \<and>
     (exp_up e0 x < 1023 \<longrightarrow> x < 2 powi (exp_up e0 x + 1))"
proof (induction e0 x rule: exp_up.induct)
  case (1 e x)
  show ?case
  proof (cases "e < 1023 \<and> 2 powi (e + 1) \<le> x")
    case True
    then have eq: "exp_up e x = exp_up (e + 1) x" by (subst exp_up.simps) simp
    from "1.IH" [OF True] True show ?thesis by (simp add: eq)
  next
    case False
    then have eq: "exp_up e x = e" by (subst exp_up.simps) auto
    from False "1.prems" show ?thesis by (auto simp: eq)
  qed
qed

lemma exp_down_spec:
  "- 1022 \<le> e0 \<Longrightarrow> x < 2 powi (e0 + 1) \<Longrightarrow>
     - 1022 \<le> exp_down e0 x \<and> exp_down e0 x \<le> e0 \<and> x < 2 powi (exp_down e0 x + 1) \<and>
     (- 1022 < exp_down e0 x \<longrightarrow> 2 powi (exp_down e0 x) \<le> x)"
proof (induction e0 x rule: exp_down.induct)
  case (1 e x)
  show ?case
  proof (cases "- 1022 < e \<and> x < 2 powi e")
    case True
    then have eq: "exp_down e x = exp_down (e - 1) x" by (subst exp_down.simps) simp
    from "1.IH" [OF True] True show ?thesis by (simp add: eq)
  next
    case False
    then have eq: "exp_down e x = e" by (subst exp_down.simps) auto
    from False "1.prems" show ?thesis by (auto simp: eq)
  qed
qed

lemma binade_spec:
  "- 1022 \<le> binade x \<and> binade x \<le> 1023 \<and>
   (- 1022 < binade x \<longrightarrow> 2 powi (binade x) \<le> x) \<and>
   (binade x < 1023 \<longrightarrow> x < 2 powi (binade x + 1))"
proof (cases "1 \<le> x")
  case True
  with exp_up_spec [of 0 x] show ?thesis by (simp add: binade_def)
next
  case False
  with exp_down_spec [of 0 x] show ?thesis by (simp add: binade_def)
qed

lemma pow2_mono: "a \<le> b \<Longrightarrow> (2::real) powi a \<le> 2 powi b"
  by (rule power_int_increasing) simp_all

lemma binade_eq:
  assumes "2 powi e \<le> x" "x < 2 powi (e + 1)" "- 1022 \<le> e" "e \<le> 1023"
  shows "binade x = e"
proof (rule antisym)
  show "binade x \<le> e"
  proof (rule ccontr)
    assume "\<not> binade x \<le> e"
    then have b: "e + 1 \<le> binade x" "- 1022 < binade x" using assms(3) by simp_all
    with binade_spec [of x] have "2 powi (binade x) \<le> x" by simp
    moreover have "(2::real) powi (e + 1) \<le> 2 powi (binade x)" by (rule pow2_mono [OF b(1)])
    ultimately show False using assms(2) by simp
  qed
  show "e \<le> binade x"
  proof (rule ccontr)
    assume "\<not> e \<le> binade x"
    then have b: "binade x + 1 \<le> e" "binade x < 1023" using assms(4) by simp_all
    with binade_spec [of x] have "x < 2 powi (binade x + 1)" by simp
    moreover have "(2::real) powi (binade x + 1) \<le> 2 powi e" by (rule pow2_mono [OF b(1)])
    ultimately show False using assms(1) by simp
  qed
qed

lemma binade_mono:
  assumes "x \<le> y"
  shows "binade x \<le> binade y"
proof (rule ccontr)
  assume "\<not> binade x \<le> binade y"
  then have b: "binade y + 1 \<le> binade x" by simp
  with binade_spec [of x] binade_spec [of y]
  have "2 powi (binade x) \<le> x" "y < 2 powi (binade y + 1)" by simp_all
  moreover have "(2::real) powi (binade y + 1) \<le> 2 powi (binade x)" by (rule pow2_mono [OF b])
  ultimately show False using assms by simp
qed

lemma rne_of_int [simp]: "rne (of_int n) = n"
  by (simp add: rne_def)

lemma rne_bounds: "\<lfloor>q\<rfloor> \<le> rne q \<and> rne q \<le> \<lfloor>q\<rfloor> + 1"
  by (simp add: rne_def)

lemma rne_ge_int:
  assumes "of_int n \<le> q"
  shows "n \<le> rne q"
proof -
  from assms have "n \<le> \<lfloor>q\<rfloor>" by (simp add: le_floor_iff)
  with rne_bounds [of q] show ?thesis by simp
qed

lemma rne_le_int:
  assumes "q \<le> of_int n"
  shows "rne q \<le> n"
proof (cases "q = of_int n")
  case True
  then show ?thesis by simp
next
  case False
  with assms have "q < of_int n" by simp
  then have "\<lfloor>q\<rfloor> < n" by (simp add: floor_less_iff)
  with rne_bounds [of q] show ?thesis by simp
qed

lemma rne_mono:
  assumes "p \<le> q"
  shows "rne p \<le> rne q"
proof (cases "\<lfloor>p\<rfloor> = \<lfloor>q\<rfloor>")
  case True
  with assms show ?thesis by (auto simp: rne_def)
next
  case False
  with floor_mono [OF assms] have "\<lfloor>p\<rfloor> < \<lfloor>q\<rfloor>" by simp
  with rne_bounds [of p] rne_bounds [of q] show ?thesis by simp
qed

lemma to_double_pos: "0 < x \<Longrightarrow> to_double x = min (pre_double x) (2 powi 1024)"
  by (simp add: to_double_def)

lemma to_double_0 [simp]: "to_double 0 = 0"
  by (simp add: to_double_def)

lemma to_double_minus: "to_double (- x) = - to_double x"
  by (simp add: to_double_def sgn_minus)

lemma pre_double_nonneg: "0 \<le> x \<Longrightarrow> 0 \<le> pre_double x"
proof -
  assume "0 \<le> x"
  then have "0 \<le> x / 2 powi (binade x - 52)" by simp
  then have "0 \<le> rne (x / 2 powi (binade x - 52))" using rne_ge_int [of 0] by simp
  then show ?thesis by (simp add: pre_double_def)
qed

lemma to_double_nonneg: "0 \<le> x \<Longrightarrow> 0 \<le> to_double x"
  using pre_double_nonneg [of x] by (cases "x = 0") (simp_all add: to_double_pos)

lemma pre_double_lower:
  assumes "- 1022 < binade x"
  shows "2 powi (binade x) \<le> pre_double x"
proof -
  let ?e = "binade x"
  from assms binade_spec [of x] have "2 powi ?e \<le> x" by simp
  then have "2 powi ?e / 2 powi (?e - 52) \<le> x / 2 powi (?e - 52)"
    by (simp add: divide_right_mono)
  moreover have "(2::real) powi ?e / 2 powi (?e - 52) = 2 powi 52"
    by (simp add: power_int_diff [symmetric])
  ultimately have "of_int (2 ^ 52) \<le> x / 2 powi (?e - 52)" by simp
  then have "2 ^ 52 \<le> rne (x / 2 powi (?e - 52))" by (rule rne_ge_int)
  then have "(2 ^ 52 :: real) \<le> of_int (rne (x / 2 powi (?e - 52)))"
    by (metis of_int_le_iff of_int_numeral of_int_power)
  then have "2 ^ 52 * 2 powi (?e - 52) \<le> pre_double x"
    by (simp add: pre_double_def mult_right_mono)
  moreover have "(2::real) ^ 52 * 2 powi (?e - 52) = 2 powi ?e"
    using power_int_add [of "2::real" 52 "?e - 52"] by simp
  ultimately show ?thesis by simp
qed

lemma pre_double_upper:
  assumes "binade x < 1023"
  shows "pre_double x \<le> 2 powi (binade x + 1)"
proof -
  let ?e = "binade x"
  from assms binade_spec [of x] have "x \<le> 2 powi (?e + 1)" by simp
  then have "x / 2 powi (?e - 52) \<le> 2 powi (?e + 1) / 2 powi (?e - 52)"
    by (simp add: divide_right_mono)
  moreover have "(2::real) powi (?e + 1) / 2 powi (?e - 52) = 2 powi 53"
    by (simp add: power_int_diff [symmetric])
  ultimately have "x / 2 powi (?e - 52) \<le> of_int (2 ^ 53)" by simp
  then have "rne (x / 2 powi (?e - 52)) \<le> 2 ^ 53" by (rule rne_le_int)
  then have "of_int (rne (x / 2 powi (?e - 52))) \<le> (2 ^ 53 :: real)"
    by (metis of_int_le_iff of_int_numeral of_int_power)
  then have "pre_double x \<le> 2 ^ 53 * 2 powi (?e - 52)"
    by (simp add: pre_double_def mult_right_mono)
  moreover have "(2::real) ^ 53 * 2 powi (?e - 52) = 2 powi (?e + 1)"
    using power_int_add [of "2::real" 53 "?e - 52"] by (simp add: add.commute)
  ultimately show ?thesis by simp
qed

lemma pre_double_mono:
  assumes "x \<le> y"
  shows "min (pre_double x) (2 powi 1024) \<le> min (pre_double y) (2 powi 1024)"
proof (cases "binade x = binade y")
  case True
  have "x / 2 powi (binade y - 52) \<le> y / 2 powi (binade y - 52)"
    using assms by (simp add: divide_right_mono)
  then have "rne (x / 2 powi (binade y - 52)) \<le> rne (y / 2 powi (binade y - 52))"
    by (rule rne_mono)
  then have "pre_double x \<le> pre_double y"
    by (simp add: pre_double_def True mult_right_mono)
  then show ?thesis by (simp add: min_le_iff_disj)
next
  case False
  with binade_mono [OF assms] have lt: "binade x < binade y" by simp
  with binade_spec [of x] binade_spec [of y]
  have bx: "binade x < 1023" and by': "- 1022 < binade y" "binade y \<le> 1023" by simp_all
  have "pre_double x \<le> 2 powi (binade x + 1)" by (rule pre_double_upper [OF bx])
  also have "\<dots> \<le> 2 powi (binade y)" using lt by (intro pow2_mono) simp
  finally have a: "pre_double x \<le> 2 powi (binade y)" .
  have b: "2 powi (binade y) \<le> pre_double y" by (rule pre_double_lower [OF by'(1)])
  have c: "(2::real) powi (binade y) \<le> 2 powi 1024" using by'(2) by (intro pow2_mono) simp
  from a b c show ?thesis by (simp add: min_le_iff_disj)
qed

lemma to_double_mono:
  assumes "x \<le> y"
  shows "to_double x \<le> to_double y"
proof -
  consider (pos) "0 < x" | (neg) "y < 0" | (mixed) "x \<le> 0" "0 \<le> y" by linarith
  then show ?thesis
  proof cases
    case pos
    with assms have "0 < y" by simp
    with pos pre_double_mono [OF assms] show ?thesis by (simp add: to_double_pos)
  next
    case neg
    with assms have "0 < - y" "0 < - x" "- y \<le> - x" by simp_all
    with pre_double_mono [of "- y" "- x"]
    have "to_double (- y) \<le> to_double (- x)" by (simp add: to_double_pos)
    then show ?thesis by (simp add: to_double_minus)
  next
    case mixed
    from mixed(1) have "to_double x \<le> 0"
      using to_double_nonneg [of "- x"] by (simp add: to_double_minus)
    with to_double_nonneg [OF mixed(2)] show ?thesis by simp
  qed
qed

lemma to_double_eval:
  assumes "2 powi e \<le> x" "x < 2 powi (e + 1)" "- 1022 \<le> e" "e \<le> 1023"
  shows "to_double x = min (of_int (rne (x / 2 powi (e - 52))) * 2 powi (e - 52)) (2 powi 1024)"
proof -
  have "0 < x" using assms(1) by (rule less_le_trans [rotated]) simp
  then show ?thesis by (simp add: to_double_pos pre_double_def binade_eq [OF assms])
qed

lemma to_double_dyadic:
  assumes "\<bar>m\<bar> < 2 ^ 53" "- 1074 \<le> k" "k \<le> 971"
  shows "to_double (of_int m * 2 powi k) = of_int m * 2 powi k"
proof -
  have pos: "to_double (of_int n * 2 powi k) = of_int n * 2 powi k" if n: "0 < n" "n < 2 ^ 53" for n :: int
  proof -
    define x where "x = of_int n * (2::real) powi k"
    define e where "e = binade x"
    have x: "0 < x" using n(1) by (simp add: x_def)
    have lt: "x < 2 powi (53 + k)"
    proof -
      have "of_int n < (2 ^ 53 :: real)" using n(2) by (metis of_int_less_iff of_int_numeral of_int_power)
      then have "x < 2 ^ 53 * 2 powi k" by (simp add: x_def mult_strict_right_mono)
      also have "\<dots> = 2 powi (53 + k)" using power_int_add [of "2::real" 53 k] by simp
      finally show ?thesis .
    qed
    have e: "e \<le> 52 + k"
    proof (rule ccontr)
      assume "\<not> e \<le> 52 + k"
      then have b: "53 + k \<le> e" "- 1022 < e" using assms(2) by simp_all
      with binade_spec [of x] have "2 powi e \<le> x" by (simp add: e_def)
      moreover have "(2::real) powi (53 + k) \<le> 2 powi e" by (rule pow2_mono [OF b(1)])
      ultimately show False using lt by simp
    qed
    define j where "j = nat (k - (e - 52))"
    have "(2::real) powi k / 2 powi (e - 52) = 2 powi (k - (e - 52))"
      by (simp add: power_int_diff)
    also have "\<dots> = 2 ^ j" using e by (simp add: j_def power_int_nonneg_exp)
    finally have ratio: "(2::real) powi k / 2 powi (e - 52) = 2 ^ j" .
    have "x / 2 powi (e - 52) = of_int n * ((2::real) powi k / 2 powi (e - 52))"
      by (simp add: x_def)
    also have "\<dots> = of_int (n * 2 ^ j)" by (simp add: ratio)
    finally have q: "x / 2 powi (e - 52) = of_int (n * 2 ^ j)" .
    have "pre_double x = of_int (n * 2 ^ j) * 2 powi (e - 52)"
      unfolding pre_double_def e_def [symmetric] q rne_of_int ..
    also have "\<dots> = x / 2 powi (e - 52) * 2 powi (e - 52)" by (simp only: q)
    also have "\<dots> = x" by simp
    finally have pre: "pre_double x = x" .
    have "(2::real) powi (53 + k) \<le> 2 powi 1024" using assms(3) by (intro pow2_mono) simp
    with lt have "x \<le> 2 powi 1024" by simp
    with pre x have "to_double x = x" by (simp add: to_double_pos)
    then show ?thesis by (simp only: x_def)
  qed
  consider "m = 0" | "0 < m" | "m < 0" by linarith
  then show ?thesis
  proof cases
    case 1
    then show ?thesis by simp
  next
    case 2
    with assms(1) pos [of m] show ?thesis by simp
  next
    case 3
    with assms(1) pos [of "- m"] have "to_double (of_int (- m) * 2 powi k) = of_int (- m) * 2 powi k"
      by simp
    then have "to_double (- (of_int m * 2 powi k)) = - (of_int m * 2 powi k)" by simp
    then show ?thesis by (simp only: to_double_minus neg_equal_iff_equal)
  qed
qed

lemma to_double_int: "\<bar>m\<bar> < 2 ^ 53 \<Longrightarrow> to_double (of_int m) = of_int m"
  using to_double_dyadic [of m 0] by simp

lemma to_double_examples:
  "to_double 150 = 150" "to_double (3 / 4) = 3 / 4" "to_double (3 / 2) = 3 / 2"
  "to_double (- 100) = - 100" "to_double 10000 = 10000" "to_double (1 / 2 ^ 60) = 1 / 2 ^ 60"
  using to_double_int [of 150] to_double_dyadic [of 3 "- 2"] to_double_dyadic [of 3 "- 1"]
    to_double_int [of "- 100"] to_double_int [of 10000] to_double_dyadic [of 1 "- 60"]
  by simp_all

lemma to_double_near_64: "to_double (64 + 1 / 2 ^ 60) = 64"
  by (subst to_double_eval [of 6]) (simp_all add: rne_def)

lemma to_double_numeral: "(numeral n :: int) < 2 ^ 53 \<Longrightarrow> to_double (numeral n) = numeral n"
  using to_double_int [of "numeral n"] by simp

lemma to_double_neg_numeral:
  "(numeral n :: int) < 2 ^ 53 \<Longrightarrow> to_double (- numeral n) = - numeral n"
  by (simp add: to_double_minus to_double_numeral)

lemma to_double_1 [simp]: "to_double 1 = 1"
  using to_double_int [of 1] by simp

lemma to_double_fractions:
  "to_double (1 / 4) = 1 / 4" "to_double (1 / 2) = 1 / 2" "to_double (3 / 4) = 3 / 4"
  "to_double (3 / 2) = 3 / 2" "to_double (1 / 1073741824) = 1 / 1073741824"
  "to_double (1 / 1152921504606846976) = 1 / 1152921504606846976"
  using to_double_dyadic [of 1 "- 2"] to_double_dyadic [of 1 "- 1"] to_double_dyadic [of 3 "- 2"]
    to_double_dyadic [of 3 "- 1"] to_double_dyadic [of 1 "- 30"] to_double_dyadic [of 1 "- 60"]
  by simp_all

lemma to_double_just_above_64:
  "to_double (73786976294838206465 / 1152921504606846976) = 64"
  by (subst to_double_eval [of 6]) (simp_all add: rne_def)

lemmas double_values = to_double_numeral to_double_neg_numeral to_double_fractions
  to_double_just_above_64


lemma rne_error: "\<bar>of_int (rne q) - q\<bar> \<le> 1 / 2"
proof -
  have b: "0 \<le> q - of_int \<lfloor>q\<rfloor>" "q - of_int \<lfloor>q\<rfloor> < 1" by linarith+
  have "(rne q = \<lfloor>q\<rfloor> \<and> q - of_int \<lfloor>q\<rfloor> \<le> 1 / 2) \<or>
        (rne q = \<lfloor>q\<rfloor> + 1 \<and> 1 / 2 \<le> q - of_int \<lfloor>q\<rfloor>)"
    by (auto simp: rne_def)
  then show ?thesis
  proof (elim disjE conjE)
    assume "rne q = \<lfloor>q\<rfloor>" "q - of_int \<lfloor>q\<rfloor> \<le> 1 / 2"
    with b show ?thesis by simp
  next
    assume "rne q = \<lfloor>q\<rfloor> + 1" "1 / 2 \<le> q - of_int \<lfloor>q\<rfloor>"
    with b show ?thesis by simp
  qed
qed

lemma to_double_error_pos:
  assumes lo: "2 powi (- 1022) \<le> x" and hi: "x < 2 powi 1023"
  shows "\<bar>to_double x - x\<bar> \<le> x / 2 ^ 53"
proof -
  define e where "e = binade x"
  define u where "u = (2::real) powi (e - 52)"
  have x: "0 < x" using lo by (rule less_le_trans [rotated]) simp
  have u: "0 < u" by (simp add: u_def)
  have e_lo: "2 powi e \<le> x"
  proof (cases "- 1022 < e")
    case True
    with binade_spec [of x] show ?thesis by (simp add: e_def)
  next
    case False
    with binade_spec [of x] have "e = - 1022" by (simp add: e_def)
    with lo show ?thesis by simp
  qed
  have e_hi: "e < 1023"
  proof (rule ccontr)
    assume "\<not> e < 1023"
    with binade_spec [of x] have "e = 1023" by (simp add: e_def)
    with e_lo hi show False by simp
  qed
  have pre: "pre_double x = of_int (rne (x / u)) * u"
    by (simp add: pre_double_def e_def u_def)
  have "pre_double x \<le> 2 powi (e + 1)"
    using pre_double_upper [of x] e_hi by (simp add: e_def)
  also have "\<dots> \<le> 2 powi 1024" using e_hi by (intro pow2_mono) simp
  finally have td: "to_double x = of_int (rne (x / u)) * u"
    using x pre by (simp add: to_double_pos)
  have "to_double x - x = (of_int (rne (x / u)) - x / u) * u"
    using u by (simp add: td algebra_simps)
  then have "\<bar>to_double x - x\<bar> = \<bar>of_int (rne (x / u)) - x / u\<bar> * u"
    using u by (simp add: abs_mult)
  also have "\<dots> \<le> 1 / 2 * u"
    using rne_error [of "x / u"] u by (intro mult_right_mono) simp_all
  also have "\<dots> = 2 powi e / 2 ^ 53"
  proof -
    have "(2::real) powi e = 2 powi 52 * 2 powi (e - 52)"
      using power_int_add [of "2::real" 52 "e - 52"] by simp
    then show ?thesis by (simp add: u_def)
  qed
  also have "\<dots> \<le> x / 2 ^ 53" using e_lo by (simp add: divide_right_mono)
  finally show ?thesis .
qed

lemma to_double_rounded:
  assumes "normal_or_zero v"
  shows "\<exists>d. \<bar>d\<bar> \<le> 1 / 2 ^ 53 \<and> to_double v = rounded d v"
proof (cases "v = 0")
  case True
  then show ?thesis by (intro exI [of _ 0]) (simp add: rounded_def)
next
  case False
  with assms have n: "2 powi (- 1022) \<le> \<bar>v\<bar>" "\<bar>v\<bar> < 2 powi 1023"
    by (simp_all add: normal_or_zero_def)
  have err: "\<bar>to_double v - v\<bar> \<le> \<bar>v\<bar> / 2 ^ 53"
  proof (cases "0 < v")
    case True
    with to_double_error_pos [of v] n show ?thesis by simp
  next
    case neg: False
    with False have av: "\<bar>v\<bar> = - v" by simp
    from n have "2 powi (- 1022) \<le> - v" "- v < 2 powi 1023" unfolding av .
    from to_double_error_pos [OF this] have "\<bar>to_double (- v) - (- v)\<bar> \<le> \<bar>v\<bar> / 2 ^ 53"
      unfolding av .
    moreover have "\<bar>to_double (- v) - (- v)\<bar> = \<bar>to_double v - v\<bar>"
      by (simp add: to_double_minus abs_minus_commute)
    ultimately show ?thesis by simp
  qed
  define d where "d = (to_double v - v) / v"
  have "\<bar>d\<bar> = \<bar>to_double v - v\<bar> / \<bar>v\<bar>" by (simp add: d_def)
  also have "\<dots> \<le> (\<bar>v\<bar> / 2 ^ 53) / \<bar>v\<bar>" using err by (intro divide_right_mono) simp_all
  also have "\<dots> = 1 / 2 ^ 53" using False by simp
  finally have "\<bar>d\<bar> \<le> 1 / 2 ^ 53" .
  moreover have "to_double v = rounded d v"
    using False by (simp add: d_def rounded_def field_simps)
  ultimately show ?thesis by blast
qed

section \<open>Properties of the nearest-entry search\<close>

lemma shift_right_1_small: "0 \<le> v \<Longrightarrow> v < 2 ^ 31 \<Longrightarrow> shift_right_1 v = v div 2"
  by (simp add: shift_right_1_def to_int32_def)

lemma sorted_by_t_le:
  "sorted_by_t tline \<Longrightarrow> i \<le> j \<Longrightarrow> j < length tline \<Longrightarrow>
     time_at tline i \<le> time_at tline j"
  by (simp add: sorted_by_t_def time_at_def sorted_iff_nth_mono)

lemma search_loop_bounds:
  assumes srt: "sorted_by_t tline" and len: "int (length tline) \<le> 2 ^ 30"
  shows "0 \<le> lo \<Longrightarrow> hi < int (length tline) \<Longrightarrow> lo \<le> hi + 1 \<Longrightarrow>
     (\<forall>i. int i < lo \<longrightarrow> time_at tline i < t) \<Longrightarrow>
     (\<forall>i. hi < int i \<longrightarrow> i < length tline \<longrightarrow> t \<le> time_at tline i) \<Longrightarrow>
     \<exists>k. search_loop tline t lo hi = Some (Inr (int k, int k - 1)) \<and> k \<le> length tline \<and>
         (\<forall>i. i < k \<longrightarrow> time_at tline i < t) \<and>
         (\<forall>i. k \<le> i \<longrightarrow> i < length tline \<longrightarrow> t \<le> time_at tline i)"
proof (induction "nat (hi + 1 - lo)" arbitrary: lo hi rule: less_induct)
  case less
  show ?case
  proof (cases "lo \<le> hi")
    case False
    with less.prems have eq: "hi = lo - 1" by simp
    have "search_loop tline t lo hi = Some (Inr (lo, hi))"
      using False by (subst search_loop.simps) simp
    with less.prems eq show ?thesis
      by (intro exI [of _ "nat lo"]) (auto simp: nat_less_iff)
  next
    case True
    define mid where "mid = (lo + hi) div 2"
    have sum: "0 \<le> lo + hi" "lo + hi < 2 ^ 31"
      using True less.prems(1,2) len by simp_all
    have sh: "shift_right_1 (lo + hi) = mid"
      using sum by (simp add: shift_right_1_small mid_def)
    have mid: "lo \<le> mid" "mid \<le> hi" using True by (simp_all add: mid_def)
    then have inr: "0 \<le> mid" "mid < int (length tline)" using less.prems(1,2) by simp_all
    then have at: "entry_at tline mid = Inr (tline ! nat mid)"
      by (simp add: entry_at_def)
    show ?thesis
    proof (cases "time_at tline (nat mid) < t")
      case lt: True
      have step: "search_loop tline t lo hi = search_loop tline t (mid + 1) hi"
        using True lt by (subst search_loop.simps) (simp add: sh at time_at_def)
      have below: "\<forall>i. int i < mid + 1 \<longrightarrow> time_at tline i < t"
      proof (intro allI impI)
        fix i assume "int i < mid + 1"
        then have "i \<le> nat mid" by simp
        then have "time_at tline i \<le> time_at tline (nat mid)"
          using inr by (intro sorted_by_t_le [OF srt]) simp_all
        with lt show "time_at tline i < t" by simp
      qed
      have "nat (hi + 1 - (mid + 1)) < nat (hi + 1 - lo)" using mid True by simp
      from less.hyps [OF this _ less.prems(2) _ below less.prems(5)] mid inr
      show ?thesis by (simp add: step)
    next
      case ge: False
      have step: "search_loop tline t lo hi = search_loop tline t lo (mid - 1)"
        using True ge by (subst search_loop.simps) (simp add: sh at time_at_def)
      have above: "\<forall>i. mid - 1 < int i \<longrightarrow> i < length tline \<longrightarrow> t \<le> time_at tline i"
      proof (intro allI impI)
        fix i assume "mid - 1 < int i" "i < length tline"
        then have "nat mid \<le> i" by simp
        then have "time_at tline (nat mid) \<le> time_at tline i"
          using \<open>i < length tline\<close> by (intro sorted_by_t_le [OF srt]) simp_all
        with ge show "t \<le> time_at tline i" by simp
      qed
      have "nat (mid - 1 + 1 - lo) < nat (hi + 1 - lo)" using mid True by simp
      from less.hyps [OF this less.prems(1) _ _ less.prems(4) above] mid inr
      show ?thesis by (simp add: step)
    qed
  qed
qed

lemma findNearestIndex_nonempty:
  assumes srt: "sorted_by_t tline" and len: "int (length tline) \<le> 2 ^ 30"
    and ne: "tline \<noteq> []"
  shows "\<exists>r. findNearestIndex tline t = Some (Inr (int r)) \<and>
             nearest_as_computed tline t r \<and> nearest_unless_rounded_tie tline t r \<and>
             earlier_on_tie tline t r"
proof -
  let ?n = "length tline"
  let ?T = "time_at tline"
  have n0: "0 < ?n" using ne by simp
  obtain k where loop: "search_loop tline t 0 (int ?n - 1) = Some (Inr (int k, int k - 1))"
    and k: "k \<le> ?n"
    and below: "\<And>i. i < k \<Longrightarrow> ?T i < t"
    and above: "\<And>i. k \<le> i \<Longrightarrow> i < ?n \<Longrightarrow> t \<le> ?T i"
    using search_loop_bounds [OF srt len, of 0 "int ?n - 1" t] by auto
  have mono: "\<And>i j. i \<le> j \<Longrightarrow> j < ?n \<Longrightarrow> ?T i \<le> ?T j"
    using sorted_by_t_le [OF srt] by blast
  have no_tie: "\<not> rounded_tie tline t i" if "k = 0 \<or> k = ?n" for i
  proof
    assume "rounded_tie tline t i"
    then have h: "Suc i < ?n" "?T i < t" "t \<le> ?T (Suc i)" by (simp_all add: rounded_tie_def)
    from that show False
    proof
      assume "k = 0"
      with above [of i] h show False by simp
    next
      assume "k = ?n"
      with below [of "Suc i"] h show False by simp
    qed
  qed
  have exact_suffices: "nearest_as_computed tline t r" if "nearest_at tline t r" for r
    using that by (auto simp: nearest_at_def nearest_as_computed_def intro: to_double_mono)
  consider (first) "k = 0" | (last) "k = ?n" | (mid) "0 < k" "k < ?n"
    using k by linarith
  then show ?thesis
  proof cases
    case first
    have res: "findNearestIndex tline t = Some (Inr (int 0))"
      using n0 first by (simp add: findNearestIndex_def Let_def loop)
    have near: "nearest_at tline t 0"
      unfolding nearest_at_def
    proof (intro conjI allI impI)
      fix j assume j: "j < ?n"
      have "t \<le> ?T 0" using above [of 0] first n0 by simp
      moreover have "?T 0 \<le> ?T j" using mono [of 0 j] j by simp
      ultimately show "\<bar>?T 0 - t\<bar> \<le> \<bar>?T j - t\<bar>" by simp
    qed (use n0 in simp)
    have tie: "earlier_on_tie tline t 0"
      using no_tie first by (simp add: earlier_on_tie_def)
    from res near tie exact_suffices [OF near] show ?thesis
      by (auto simp: nearest_unless_rounded_tie_def)
  next
    case last
    have idx: "int ?n - 1 = int (?n - 1)" using ne by (cases tline) simp_all
    have "findNearestIndex tline t = Some (Inr (int ?n - 1))"
      using n0 last by (simp add: findNearestIndex_def Let_def loop)
    then have res: "findNearestIndex tline t = Some (Inr (int (?n - 1)))"
      by (simp only: idx)
    have lastlt: "?T (?n - 1) < t" using below [of "?n - 1"] last n0 by simp
    have near: "nearest_at tline t (?n - 1)"
      unfolding nearest_at_def
    proof (intro conjI allI impI)
      fix j assume j: "j < ?n"
      have "?T j \<le> ?T (?n - 1)" using mono [of j "?n - 1"] j by simp
      with lastlt show "\<bar>?T (?n - 1) - t\<bar> \<le> \<bar>?T j - t\<bar>" by simp
    qed (use n0 in simp)
    have tie: "earlier_on_tie tline t (?n - 1)"
      using no_tie last by (simp add: earlier_on_tie_def)
    from res near tie exact_suffices [OF near] show ?thesis
      by (auto simp: nearest_unless_rounded_tie_def)
  next
    case mid
    define a where "a = ?T (k - 1)"
    define b where "b = ?T k"
    define da where "da = to_double (t - a)"
    define db where "db = to_double (b - t)"
    define r where "r = (if da \<le> db then k - 1 else k)"
    have ea: "entry_at tline (int k - 1) = Inr (tline ! (k - 1))"
      using mid by (simp add: entry_at_def nat_diff_distrib')
    have eb: "entry_at tline (int k) = Inr (tline ! k)"
      using mid by (simp add: entry_at_def)
    have idx: "int k - 1 = int (k - 1)" using mid by (cases k) simp_all
    have "findNearestIndex tline t = Some (Inr (if da \<le> db then int k - 1 else int k))"
      using mid ne
      by (simp add: findNearestIndex_def Let_def loop ea eb a_def b_def da_def db_def time_at_def)
    then have res: "findNearestIndex tline t = Some (Inr (int r))"
      by (simp only: idx r_def if_distrib [of int])
    have alt: "a < t" using below [of "k - 1"] mid by (simp add: a_def)
    have bge: "t \<le> b" using above [of k] mid by (simp add: b_def)
    have lo: "\<And>j. j < k \<Longrightarrow> ?T j \<le> a"
      using mono [of _ "k - 1"] mid by (simp add: a_def)
    have hi: "\<And>j. k \<le> j \<Longrightarrow> j < ?n \<Longrightarrow> b \<le> ?T j"
      using mono [of k] by (simp add: b_def)
    have r_lt: "r < ?n" using mid by (auto simp: r_def)
    have Tr: "?T r = (if da \<le> db then a else b)"
      by (simp add: r_def a_def b_def)
    have dist_lo: "\<bar>?T j - t\<bar> = t - ?T j \<and> t - a \<le> t - ?T j" if "j < k" for j
      using lo [OF that] alt by simp
    have dist_hi: "\<bar>?T j - t\<bar> = ?T j - t \<and> b - t \<le> ?T j - t" if "k \<le> j" "j < ?n" for j
      using hi [OF that] bge by simp
    have Dr: "to_double \<bar>?T r - t\<bar> = min da db"
      using alt bge by (simp add: Tr da_def db_def min_def abs_if)
    have computed: "nearest_as_computed tline t r"
      unfolding nearest_as_computed_def
    proof (intro conjI allI impI)
      fix j assume j: "j < ?n"
      show "to_double \<bar>?T r - t\<bar> \<le> to_double \<bar>?T j - t\<bar>"
      proof (cases "j < k")
        case True
        from dist_lo [OF True] have "da \<le> to_double \<bar>?T j - t\<bar>"
          by (simp add: da_def to_double_mono)
        then show ?thesis by (simp add: Dr)
      next
        case False
        with dist_hi [of j] j have "db \<le> to_double \<bar>?T j - t\<bar>"
          by (simp add: db_def to_double_mono)
        then show ?thesis by (simp add: Dr)
      qed
    qed (rule r_lt)
    have tie_iff: "rounded_tie tline t i \<longleftrightarrow> i = k - 1 \<and> da = db" for i
    proof
      assume h: "rounded_tie tline t i"
      then have h': "Suc i < ?n" "?T i < t" "t \<le> ?T (Suc i)" by (simp_all add: rounded_tie_def)
      have "i < k" using h' above [of i] by (cases "i < k") auto
      moreover have "k \<le> Suc i" using h' below [of "Suc i"] by (cases "k \<le> Suc i") auto
      ultimately have i: "i = k - 1" by simp
      with h mid show "i = k - 1 \<and> da = db"
        by (simp add: rounded_tie_def da_def db_def a_def b_def)
    next
      assume "i = k - 1 \<and> da = db"
      with mid alt bge show "rounded_tie tline t i"
        by (simp add: rounded_tie_def da_def db_def a_def b_def)
    qed
    have tie: "earlier_on_tie tline t r"
      by (simp add: earlier_on_tie_def tie_iff r_def)
    have unless: "nearest_unless_rounded_tie tline t r"
    proof (cases "da = db")
      case True
      then show ?thesis by (simp add: nearest_unless_rounded_tie_def tie_iff r_def)
    next
      case False
      have "nearest_at tline t r"
        unfolding nearest_at_def
      proof (intro conjI allI impI)
        fix j assume j: "j < ?n"
        have side: "(da \<le> db \<longrightarrow> t - a \<le> b - t) \<and> (\<not> da \<le> db \<longrightarrow> b - t \<le> t - a)"
        proof (intro conjI impI)
          assume "da \<le> db"
          with False have lt: "da < db" by simp
          show "t - a \<le> b - t"
          proof (rule ccontr)
            assume "\<not> t - a \<le> b - t"
            then have "b - t \<le> t - a" by simp
            then have "db \<le> da" unfolding da_def db_def by (rule to_double_mono)
            with lt show False by simp
          qed
        next
          assume gt: "\<not> da \<le> db"
          show "b - t \<le> t - a"
          proof (rule ccontr)
            assume "\<not> b - t \<le> t - a"
            then have "t - a \<le> b - t" by simp
            then have "da \<le> db" unfolding da_def db_def by (rule to_double_mono)
            with gt show False by simp
          qed
        qed
        show "\<bar>?T r - t\<bar> \<le> \<bar>?T j - t\<bar>"
        proof (cases "j < k")
          case True
          with dist_lo [OF True] side alt bge show ?thesis by (auto simp: Tr)
        next
          case False
          with dist_hi [of j] j side alt bge show ?thesis by (auto simp: Tr)
        qed
      qed (rule r_lt)
      then show ?thesis by (simp add: nearest_unless_rounded_tie_def)
    qed
    from res computed unless tie show ?thesis by blast
  qed
qed

lemma close_values:
  "to_double (close_query - 1152921504606847 / 2 ^ 60) = 3170534137668829 / 2 ^ 58"
  "to_double (3314649325744685 / 2 ^ 57 - close_query) = 3170534137668829 / 2 ^ 58"
  by (subst to_double_eval [of "- 7"]; simp add: close_query_def rne_def)+

lemma close_timeline_loop: "search_loop close_timeline close_query 0 1 = Some (Inr (1, 0))"
  by (simp add: search_loop.simps close_timeline_def close_query_def entry_at_def
      shift_right_1_def to_int32_def)

lemma close_timeline_entries:
  "length close_timeline = 2"
  "entry_at close_timeline 0 =
     Inr \<lparr>entry_t = 1152921504606847 / 2 ^ 60, entry_count = 0, entry_boxes = []\<rparr>"
  "entry_at close_timeline 1 =
     Inr \<lparr>entry_t = 3314649325744685 / 2 ^ 57, entry_count = 0, entry_boxes = []\<rparr>"
  by (simp_all add: close_timeline_def entry_at_def)

text \<open>
  C2, as stated, fails: the two distances are subtractions rounded to double. On the times
  \<open>0.001\<close> and \<open>0.023\<close> queried at \<open>0.012\<close> both round to the same double, the code returns
  index 0, and the entry at index 1 is nearer.
\<close>

theorem findNearestIndex_rounding_counterexample:
  "findNearestIndex close_timeline close_query = Some (Inr 0) \<and>
   \<bar>time_at close_timeline 1 - close_query\<bar> < \<bar>time_at close_timeline 0 - close_query\<bar>"
proof
  have "findNearestIndex close_timeline close_query =
      Some (Inr (if to_double (close_query - 1152921504606847 / 2 ^ 60)
                     \<le> to_double (3314649325744685 / 2 ^ 57 - close_query) then 0 else 1))"
    by (simp add: findNearestIndex_def close_timeline_entries close_timeline_loop)
  then show "findNearestIndex close_timeline close_query = Some (Inr 0)"
    by (simp only: close_values) simp
  show "\<bar>time_at close_timeline 1 - close_query\<bar> < \<bar>time_at close_timeline 0 - close_query\<bar>"
    by (simp add: time_at_def close_timeline_def close_query_def)
qed

text \<open>
  C2, amended: for a timeline sorted by \<open>t\<close> (of at most \<open>2^30\<close> entries, so that the 32-bit
  \<open>(lo + hi) >> 1\<close> is the midpoint), \<open>findNearestIndex\<close> returns \<open>-1\<close> on the empty
  timeline, and otherwise an index whose distance to the query, as the code computes it (a
  subtraction rounded to double), is at most that of every other entry; no entry is nearer
  in exact terms either, unless the index is that of the entry before the query and the
  computed distances of the entries before and after the query are equal; and whenever
  those two computed distances are equal, the earlier index is returned.
\<close>

theorem findNearestIndex_nearest:
  assumes "sorted_by_t tline" and "int (length tline) \<le> 2 ^ 30"
  shows "if tline = [] then findNearestIndex tline t = Some (Inr (- 1))
         else (\<exists>r. findNearestIndex tline t = Some (Inr (int r)) \<and>
                 nearest_as_computed tline t r \<and> nearest_unless_rounded_tie tline t r \<and>
                 earlier_on_tie tline t r)"
  using findNearestIndex_nonempty [OF assms] by (simp add: findNearestIndex_def)

lemma example_timeline_facts:
  "sorted_by_t example_timeline" "int (length example_timeline) \<le> 2 ^ 30"
  "example_timeline \<noteq> []" "rounded_tie example_timeline 2 (Suc 0)"
  by (simp_all add: example_timeline_def sorted_by_t_def time_at_def rounded_tie_def)

text \<open>
  C2, witness: on the timeline with times 0, 1, 3 the query 2 is equally far from index 1
  and index 2, and index 1 is returned; the empty timeline gives \<open>-1\<close>.
\<close>

theorem findNearestIndex_nearest_witness:
  "sorted_by_t example_timeline \<and> findNearestIndex example_timeline 2 = Some (Inr 1)
   \<and> findNearestIndex [] 2 = Some (Inr (- 1))"
proof -
  obtain r where r: "findNearestIndex example_timeline 2 = Some (Inr (int r))"
    and tie: "earlier_on_tie example_timeline 2 r"
    using findNearestIndex_nearest [OF example_timeline_facts(1,2), of 2]
    by (auto simp: example_timeline_facts(3))
  from tie example_timeline_facts(4) have "r = Suc 0"
    by (simp add: earlier_on_tie_def)
  moreover have "findNearestIndex [] 2 = Some (Inr (- 1))"
    using findNearestIndex_nearest [of "[]" 2] by (simp add: sorted_by_t_def)
  ultimately show ?thesis using r by (simp add: example_timeline_facts(1))
qed

section \<open>Properties of the detection request\<close>

lemma detect_catch_reset: "has_context env \<Longrightarrow> results_reset (detect_catch e env s)"
  by (simp add: detect_catch_def clearOverlay_def results_reset_def)

text \<open>
  C10: when the \<open>try\<close> block of \<open>detectVideo\<close> throws (and the canvas has a 2D context), the
  call ends with the timeline empty, the average and the maximum count zero, the statistics
  cleared and the overlay cleared. The block throws when \<open>fetch\<close> is rejected, when the
  response is not a success, and when the response holds an average that is no number.
\<close>

theorem failed_detection_resets_results:
  "(submission_fails r env s \<and> has_context env \<longrightarrow>
      (\<exists>s'. detectVideo_resumed r env s = Some s' \<and> results_reset s')) \<and>
   submission_fails Video_net_failed env s \<and>
   submission_fails (Video_http False body) env s \<and>
   submission_fails (Video_http True (Some (b\<lparr>d_avg_count := Not_a_number\<rparr>))) env s"
proof (intro conjI impI)
  assume a: "submission_fails r env s \<and> has_context env"
  then obtain e s1 where "detect_try r env s = Some (Inl (e, s1))"
    by (auto simp: submission_fails_def split: option.splits sum.splits)
  then have "detectVideo_resumed r env s = Some ((detect_catch e env s1)\<lparr>btnDetect_disabled := False\<rparr>)"
    by (simp add: detectVideo_resumed_def)
  moreover have "results_reset ((detect_catch e env s1)\<lparr>btnDetect_disabled := False\<rparr>)"
    using detect_catch_reset [of env e s1] a by (simp add: results_reset_def)
  ultimately show "\<exists>s'. detectVideo_resumed r env s = Some s' \<and> results_reset s'" by blast
qed (simp_all add: submission_fails_def detect_try_def Let_def or_zero_def)

text \<open>
  C10, witness: with a timeline of three entries loaded and a rectangle on the overlay, a
  non-success response leaves the timeline and the overlay empty.
\<close>

theorem failed_detection_resets_results_witness:
  "has_context example_env \<and> timeline loaded_video \<noteq> [] \<and>
   map_option timeline (detectVideo_resumed (Video_http False None) example_env loaded_video) = Some [] \<and>
   map_option overlay (detectVideo_resumed (Video_http False None) example_env loaded_video) = Some []"
proof -
  have c: "has_context example_env" by (simp add: example_env_def)
  have t: "timeline loaded_video \<noteq> []" by (simp add: loaded_video_def example_timeline_def)
  from failed_detection_resets_results [of "Video_http False None" example_env loaded_video None]
  have "submission_fails (Video_http False None) example_env loaded_video" by blast
  with failed_detection_resets_results [of "Video_http False None" example_env loaded_video] c
  obtain s' where "detectVideo_resumed (Video_http False None) example_env loaded_video = Some s'"
    "results_reset s'" by blast
  with c t show ?thesis by (simp add: results_reset_def)
qed

section \<open>Properties of the ROI polygon editor\<close>

lemma hit_loop_miss:
  "\<forall>p\<in>set ps. \<not> hit rw rh iw ih dx dy p \<Longrightarrow> hit_loop rw rh iw ih dx dy ps i = - 1"
  by (induction ps arbitrary: i) simp_all

lemma hit_loop_first:
  "\<exists>p\<in>set ps. hit rw rh iw ih dx dy p \<Longrightarrow>
     \<exists>k<length ps. hit_loop rw rh iw ih dx dy ps i = i + int k \<and> hit rw rh iw ih dx dy (ps ! k) \<and>
        (\<forall>j<k. \<not> hit rw rh iw ih dx dy (ps ! j))"
proof (induction ps arbitrary: i)
  case Nil
  then show ?case by simp
next
  case (Cons p ps)
  show ?case
  proof (cases "hit rw rh iw ih dx dy p")
    case True
    then show ?thesis by (intro exI [of _ 0]) simp
  next
    case False
    with Cons.prems have "\<exists>q\<in>set ps. hit rw rh iw ih dx dy q" by simp
    from Cons.IH [OF this, of "i + 1"] obtain k where k: "k < length ps"
      "hit_loop rw rh iw ih dx dy ps (i + 1) = i + 1 + int k" "hit rw rh iw ih dx dy (ps ! k)"
      "\<forall>j<k. \<not> hit rw rh iw ih dx dy (ps ! j)" by blast
    show ?thesis
    proof (intro exI [of _ "Suc k"] conjI allI impI)
      fix j assume "j < Suc k"
      then show "\<not> hit rw rh iw ih dx dy ((p # ps) ! j)"
        using False k(4) by (cases j) simp_all
    qed (use False k in simp_all)
  qed
qed

lemma pointerdown_drag:
  "dragIdx (pointerdown x y rw rh s) = dragIdx s \<or>
   (roiEdit s \<and> imgW s \<noteq> 0 \<and> roiEdit (pointerdown x y rw rh s) \<and>
    roiPts (pointerdown x y rw rh s) = roiPts s \<and>
    (\<exists>k<length (roiPts s). dragIdx (pointerdown x y rw rh s) = int k \<and>
        hit rw rh (imgW s) (imgH s) x y (roiPts s ! k) \<and>
        (\<forall>j<k. \<not> hit rw rh (imgW s) (imgH s) x y (roiPts s ! j))))"
proof (cases "roiEdit s \<and> imgW s \<noteq> 0 \<and> (\<exists>p\<in>set (roiPts s). hit rw rh (imgW s) (imgH s) x y p)")
  case True
  then have "\<exists>p\<in>set (roiPts s). hit rw rh (imgW s) (imgH s) x y p" by simp
  from hit_loop_first [OF this, of 0] obtain k where k: "k < length (roiPts s)"
    "hitTestPoint rw rh x y s = int k" "hit rw rh (imgW s) (imgH s) x y (roiPts s ! k)"
    "\<forall>j<k. \<not> hit rw rh (imgW s) (imgH s) x y (roiPts s ! j)"
    by (auto simp: hitTestPoint_def)
  have "pointerdown x y rw rh s = s\<lparr>dragIdx := int k\<rparr>"
    using True k(2) by (simp add: pointerdown_def)
  with True k show ?thesis by auto
next
  case False
  show ?thesis
  proof (cases "roiEdit s \<and> imgW s \<noteq> 0")
    case True
    with False have "hitTestPoint rw rh x y s = - 1"
      by (simp add: hitTestPoint_def hit_loop_miss)
    with True show ?thesis by (simp add: pointerdown_def)
  next
    case False
    then show ?thesis by (auto simp: pointerdown_def)
  qed
qed

lemma hitTestPoint_range:
  "hitTestPoint rw rh x y s = - 1 \<or>
   (0 \<le> hitTestPoint rw rh x y s \<and> hitTestPoint rw rh x y s < int (length (roiPts s)))"
proof (cases "\<exists>p\<in>set (roiPts s). hit rw rh (imgW s) (imgH s) x y p")
  case True
  from hit_loop_first [OF this, of 0] show ?thesis by (auto simp: hitTestPoint_def)
next
  case False
  then show ?thesis by (simp add: hitTestPoint_def hit_loop_miss)
qed

lemma pointerdown_inv: "editor_inv s \<Longrightarrow> editor_inv (pointerdown x y rw rh s)"
  using hitTestPoint_range [of rw rh x y s]
  by (auto simp: editor_inv_def pointerdown_def Let_def)

lemma pointermove_inv:
  "editor_inv s \<Longrightarrow> \<exists>s'. pointermove x y rw rh s = Some s' \<and> editor_inv s' \<and> dragIdx s' = dragIdx s"
  by (auto simp: editor_inv_def pointermove_def Let_def)

lemma photo_step_inv:
  assumes "editor_inv s"
  shows "\<exists>s'. photo_step e s = Some s' \<and> editor_inv s' \<and>
           (dragIdx s' = dragIdx s \<or> dragIdx s' = - 1 \<or>
            (\<exists>x y rw rh k. e = Pointer_down x y rw rh \<and> roiEdit s \<and> imgW s \<noteq> 0 \<and>
               roiEdit s' \<and> roiPts s' = roiPts s \<and> k < length (roiPts s) \<and>
               dragIdx s' = int k \<and> hit rw rh (imgW s) (imgH s) x y (roiPts s ! k) \<and>
               (\<forall>j<k. \<not> hit rw rh (imgW s) (imgH s) x y (roiPts s ! j))))"
proof (cases e)
  case (Pointer_down x y rw rh)
  have "editor_inv (pointerdown x y rw rh s)" by (rule pointerdown_inv [OF assms])
  with pointerdown_drag [of x y rw rh s] Pointer_down show ?thesis
    by (simp add: photo_step_def) blast
next
  case (Pointer_move x y rw rh)
  with pointermove_inv [OF assms, of x y rw rh] show ?thesis
    by (auto simp: photo_step_def)
qed (use assms in \<open>auto simp: photo_step_def editor_inv_def clearAll_def resetResults_def
      btnEditRoi_click_def btnClearRoi_click_def keydown_def pointerup_def
      fileInput_change_def img_onload_def btnDetect_click_def btnDetect_done_def
      split: option.splits photo_response.splits\<close>)

lemma photo_reachable_inv: "photo_reachable s \<Longrightarrow> editor_inv s"
proof (induction rule: photo_reachable.induct)
  case (init checked)
  show ?case by (simp add: editor_inv_def photo_init_def)
next
  case (step s e s')
  with photo_step_inv [of s e] show ?case by auto
qed

text \<open>
  C6, amended: for every pointer press in edit mode while an image is loaded (\<open>imgW\<close> is not
  zero): if the press lies within the 8-pixel display-space radius of some existing point,
  as the code computes it in double arithmetic, the drag index becomes the lowest index of
  such a point and no point is appended; otherwise exactly one point is appended, the press
  position converted to native coordinates, and the drag index stays as it was.
\<close>

theorem pointerdown_hit_or_append:
  assumes "roiEdit s" and "imgW s \<noteq> 0"
  shows "if \<exists>p\<in>set (roiPts s). hit rw rh (imgW s) (imgH s) x y p
         then roiPts (pointerdown x y rw rh s) = roiPts s \<and>
              (\<exists>k<length (roiPts s). dragIdx (pointerdown x y rw rh s) = int k \<and>
                   hit rw rh (imgW s) (imgH s) x y (roiPts s ! k) \<and>
                   (\<forall>j<k. \<not> hit rw rh (imgW s) (imgH s) x y (roiPts s ! j)))
         else roiPts (pointerdown x y rw rh s) =
                roiPts s @ [dispToImg_dbl rw rh (imgW s) (imgH s) x y] \<and>
              dragIdx (pointerdown x y rw rh s) = dragIdx s"
proof (cases "\<exists>p\<in>set (roiPts s). hit rw rh (imgW s) (imgH s) x y p")
  case True
  from hit_loop_first [OF this, of 0] obtain k where k: "k < length (roiPts s)"
    "hitTestPoint rw rh x y s = int k" "hit rw rh (imgW s) (imgH s) x y (roiPts s ! k)"
    "\<forall>j<k. \<not> hit rw rh (imgW s) (imgH s) x y (roiPts s ! j)"
    by (auto simp: hitTestPoint_def)
  have "pointerdown x y rw rh s = s\<lparr>dragIdx := int k\<rparr>"
    using assms k(2) by (simp add: pointerdown_def)
  with True k show ?thesis by auto
next
  case False
  then have "hitTestPoint rw rh x y s = - 1"
    by (simp add: hitTestPoint_def hit_loop_miss)
  then have "pointerdown x y rw rh s =
      s\<lparr>roiPts := roiPts s @ [dispToImg_dbl rw rh (imgW s) (imgH s) x y]\<rparr>"
    using assms by (simp add: pointerdown_def)
  with False show ?thesis by simp
qed

lemma canvas_200: "canvasSizeToImage 200 200 = (200, 200)"
  by (simp add: canvasSizeToImage_def js_round_def)

lemma dispToImg_dbl_200:
  "dispToImg_dbl 200 200 200 200 50 50 = \<lparr>pt_x = 50, pt_y = 50\<rparr>"
  "dispToImg_dbl 200 200 200 200 150 150 = \<lparr>pt_x = 150, pt_y = 150\<rparr>"
  "dispToImg_dbl 200 200 200 200 100 100 = \<lparr>pt_x = 100, pt_y = 100\<rparr>"
  "dispToImg_dbl 200 200 200 200 50 150 = \<lparr>pt_x = 50, pt_y = 150\<rparr>"
  "dispToImg_dbl 200 200 200 200 150 50 = \<lparr>pt_x = 150, pt_y = 50\<rparr>"
  by (simp_all add: dispToImg_dbl_def canvas_200 double_values)

lemma hit_200:
  "hit 200 200 200 200 50 50 \<lparr>pt_x = 50, pt_y = 50\<rparr>"
  "hit 200 200 200 200 150 150 \<lparr>pt_x = 150, pt_y = 150\<rparr>"
  "\<not> hit 200 200 200 200 150 150 \<lparr>pt_x = 50, pt_y = 50\<rparr>"
  "\<not> hit 200 200 200 200 100 100 \<lparr>pt_x = 50, pt_y = 50\<rparr>"
  "\<not> hit 200 200 200 200 100 100 \<lparr>pt_x = 150, pt_y = 150\<rparr>"
  "\<not> hit 200 200 200 200 50 150 \<lparr>pt_x = 150, pt_y = 150\<rparr>"
  "\<not> hit 200 200 200 200 150 50 \<lparr>pt_x = 150, pt_y = 150\<rparr>"
  "\<not> hit 200 200 200 200 150 50 \<lparr>pt_x = 50, pt_y = 150\<rparr>"
  by (simp_all add: hit_def imgToDisp_dbl_def canvas_200 js_div_def double_values)

text \<open>
  A press whose exact squared distance from the point is just above 64 is a hit, as in the
  browser: the sum rounds to 64.
\<close>

lemma hit_on_rounded_radius:
  "hit (799 / 2) (1002 / 5) 200 100 108 (50 + 1 / 2 ^ 30) \<lparr>pt_x = 50, pt_y = 25\<rparr>"
  "(108 - 50 / 200 * 400)\<^sup>2 + (50 + 1 / 2 ^ 30 - 25 / 100 * 200)\<^sup>2 > (64::real)"
proof -
  have c: "canvasSizeToImage (799 / 2) (1002 / 5) = (400, 200)"
    by (simp add: canvasSizeToImage_def js_round_def)
  show "hit (799 / 2) (1002 / 5) 200 100 108 (50 + 1 / 2 ^ 30) \<lparr>pt_x = 50, pt_y = 25\<rparr>"
    by (simp add: hit_def imgToDisp_dbl_def c js_div_def double_values)
  show "(108 - 50 / 200 * 400)\<^sup>2 + (50 + 1 / 2 ^ 30 - 25 / 100 * 200)\<^sup>2 > (64::real)"
    by (simp add: power2_eq_square)
qed

lemma photo_run_reachable:
  "photo_reachable s \<Longrightarrow> photo_run es s = Some s' \<Longrightarrow> photo_reachable s'"
  by (induction es arbitrary: s) (auto split: option.splits intro: photo_reachable.step)

lemmas photo_eval =
  photo_init_def photo_step_def fileInput_change_def resetResults_def img_onload_def
  btnEditRoi_click_def pointerdown_def hitTestPoint_def hit_200 dispToImg_dbl_200

lemma drag_events_run: "photo_run drag_events (photo_init True) = Some two_point_drag"
  by (simp add: drag_events_def two_point_drag_def photo_eval)

lemma two_point_drag_reachable: "photo_reachable two_point_drag"
  using photo_run_reachable [OF photo_reachable.init drag_events_run] .

lemma unloaded_edit_run:
  "photo_run unloaded_events (photo_init False) = Some unloaded_edit"
  by (simp add: unloaded_events_def unloaded_edit_def photo_eval)


text \<open>
  C8, as stated, fails in its last part: while point 0 is being dragged, a second pointer
  press on point 1 makes point 1 the dragged point, before any release.
\<close>

theorem second_press_retargets_drag_counterexample:
  "photo_run drag_events (photo_init True) = Some two_point_drag \<and> dragIdx two_point_drag = 0 \<and>
   map_option dragIdx (photo_step (Pointer_down 150 150 200 200) two_point_drag) = Some 1"
  by (simp add: drag_events_run)
     (simp add: two_point_drag_def photo_step_def pointerdown_def hitTestPoint_def hit_200)

text \<open>
  C8, amended: in every state the page can reach, the single drag index is \<open>-1\<close> or the
  index of an existing point, and it is not negative only while edit mode is true; every
  pointer, keyboard and button event keeps this, and changes the drag index only by
  resetting it to \<open>-1\<close> or, for a pointer press in edit mode with an image loaded that hits an
  existing point, by setting it to the lowest index of a point that is hit, the points
  staying as they are (also while another point is being dragged).
\<close>

theorem drag_index_invariant:
  assumes "photo_reachable s"
  shows "editor_inv s \<and>
         (\<forall>e. \<exists>s'. photo_step e s = Some s' \<and> editor_inv s' \<and>
            (dragIdx s' = dragIdx s \<or> dragIdx s' = - 1 \<or>
             (\<exists>x y rw rh k. e = Pointer_down x y rw rh \<and> roiEdit s \<and> imgW s \<noteq> 0 \<and>
                roiEdit s' \<and> roiPts s' = roiPts s \<and> k < length (roiPts s) \<and>
                dragIdx s' = int k \<and> hit rw rh (imgW s) (imgH s) x y (roiPts s ! k) \<and>
                (\<forall>j<k. \<not> hit rw rh (imgW s) (imgH s) x y (roiPts s ! j)))))"
  using photo_reachable_inv [OF assms] photo_step_inv by blast

text \<open>
  C8, witness: the state reached by loading an image, entering edit mode, adding two points
  and pressing on the first; a press on the second point then moves the drag to it.
\<close>

theorem drag_index_invariant_witness:
  "photo_reachable two_point_drag \<and> editor_inv two_point_drag \<and> dragIdx two_point_drag = 0 \<and>
   roiEdit two_point_drag \<and>
   (\<exists>s'. photo_step (Pointer_down 150 150 200 200) two_point_drag = Some s' \<and>
        editor_inv s' \<and> dragIdx s' = 1 \<and> roiPts s' = roiPts two_point_drag)"
proof -
  from drag_index_invariant [OF two_point_drag_reachable]
  obtain s' where s': "photo_step (Pointer_down 150 150 200 200) two_point_drag = Some s'"
    "editor_inv s'" and inv: "editor_inv two_point_drag"
    by blast
  have "s' = two_point_drag\<lparr>dragIdx := 1\<rparr>"
    using s'(1)
    by (simp add: two_point_drag_def photo_step_def pointerdown_def hitTestPoint_def hit_200)
  with s' inv two_point_drag_reachable show ?thesis
    by (auto simp: two_point_drag_def)
qed

text \<open>
  C6, as stated, fails: in edit mode with a file chosen whose image has not loaded (\<open>imgW\<close>
  is zero), a press away from every point appends nothing.
\<close>

theorem press_without_image_counterexample:
  "photo_run unloaded_events (photo_init False) = Some unloaded_edit \<and>
   roiEdit unloaded_edit \<and> roiPts unloaded_edit = [] \<and>
   roiPts (pointerdown 10 10 200 200 unloaded_edit) = [] \<and>
   dragIdx (pointerdown 10 10 200 200 unloaded_edit) = - 1"
  by (simp add: unloaded_edit_run) (simp add: unloaded_edit_def pointerdown_def)

text \<open>
  C6, witness: with points at (50, 50) and (150, 150), a press at (150, 150) starts the drag
  of point 1, and a press at (100, 100) appends that point.
\<close>

theorem pointerdown_hit_or_append_witness:
  "roiEdit two_point_drag \<and> imgW two_point_drag \<noteq> 0 \<and>
   dragIdx (pointerdown 150 150 200 200 two_point_drag) = 1 \<and>
   roiPts (pointerdown 150 150 200 200 two_point_drag) = roiPts two_point_drag \<and>
   roiPts (pointerdown 100 100 200 200 two_point_drag) =
     roiPts two_point_drag @ [\<lparr>pt_x = 100, pt_y = 100\<rparr>]"
proof -
  have e: "roiEdit two_point_drag" "imgW two_point_drag \<noteq> 0"
    by (simp_all add: two_point_drag_def)
  have h: "\<not> hit 200 200 200 200 150 150 (roiPts two_point_drag ! 0)"
    "hit 200 200 200 200 150 150 (roiPts two_point_drag ! 1)"
    "length (roiPts two_point_drag) = 2" "imgW two_point_drag = 200" "imgH two_point_drag = 200"
    "\<not> (\<exists>p\<in>set (roiPts two_point_drag). hit 200 200 200 200 100 100 p)"
    by (simp_all add: two_point_drag_def hit_200)
  have ex: "\<exists>p\<in>set (roiPts two_point_drag). hit 200 200 200 200 150 150 p"
    by (simp add: two_point_drag_def hit_200)
  from pointerdown_hit_or_append [OF e, of 200 200 150 150] ex h(4,5)
  obtain k where k: "k < 2" "dragIdx (pointerdown 150 150 200 200 two_point_drag) = int k"
    "hit 200 200 200 200 150 150 (roiPts two_point_drag ! k)"
    and same: "roiPts (pointerdown 150 150 200 200 two_point_drag) = roiPts two_point_drag"
    by (auto simp: h(3))
  from k(1,3) h(1) have "k = 1" by (cases k) auto
  moreover from pointerdown_hit_or_append [OF e, of 200 200 100 100] h(4,5,6)
  have "roiPts (pointerdown 100 100 200 200 two_point_drag) =
     roiPts two_point_drag @ [\<lparr>pt_x = 100, pt_y = 100\<rparr>]"
    by (simp add: dispToImg_dbl_200)
  ultimately show ?thesis using e k(2) same by simp
qed










lemma exact_transforms:
  "imgToDisp_fl exact = imgToDisp" "dispToImg_fl exact = dispToImg"
  by (simp_all add: fun_eq_iff imgToDisp_fl_def imgToDisp_def dispToImg_fl_def dispToImg_def
      exact_def rounded_def)




text \<open>
  The transform that the handlers compute is the transform of the rounding model, with
  the errors of the four operations within the unit roundoff \<open>2^-53\<close>, as long as no
  operation underflows or overflows.
\<close>

lemma dispToImg_dbl_in_model:
  assumes "canvasSizeToImage rw rh = (w, h)"
    and "normal_or_zero (x / real w)" "normal_or_zero (to_double (x / real w) * real iw)"
    and "normal_or_zero (y / real h)" "normal_or_zero (to_double (y / real h) * real ih)"
  shows "\<exists>e. within_roundoff (1 / 2 ^ 53) e \<and>
             dispToImg_dbl rw rh iw ih x y = dispToImg_fl e rw rh iw ih x y"
proof -
  from to_double_rounded [OF assms(2)] obtain d1
    where d1: "\<bar>d1\<bar> \<le> 1 / 2 ^ 53" "to_double (x / real w) = rounded d1 (x / real w)" by blast
  from to_double_rounded [OF assms(3)] obtain d2
    where d2: "\<bar>d2\<bar> \<le> 1 / 2 ^ 53"
      "to_double (to_double (x / real w) * real iw) = rounded d2 (to_double (x / real w) * real iw)"
    by blast
  from to_double_rounded [OF assms(4)] obtain d3
    where d3: "\<bar>d3\<bar> \<le> 1 / 2 ^ 53" "to_double (y / real h) = rounded d3 (y / real h)" by blast
  from to_double_rounded [OF assms(5)] obtain d4
    where d4: "\<bar>d4\<bar> \<le> 1 / 2 ^ 53"
      "to_double (to_double (y / real h) * real ih) = rounded d4 (to_double (y / real h) * real ih)"
    by blast
  let ?e = "\<lparr>err_div_x = d1, err_mul_x = d2, err_div_y = d3, err_mul_y = d4\<rparr>"
  have "within_roundoff (1 / 2 ^ 53) ?e"
    using d1(1) d2(1) d3(1) d4(1) by (simp add: within_roundoff_def)
  moreover have "dispToImg_dbl rw rh iw ih x y = dispToImg_fl ?e rw rh iw ih x y"
    using d2(2) d4(2) by (simp add: dispToImg_dbl_def dispToImg_fl_def assms(1) d1(2) d3(2))
  ultimately show ?thesis by blast
qed

end
